theory Spec2Isabelle
  imports Main
begin

section \<open>JavaScript property values\<close>

text \<open>
  A property of a JavaScript object is in one of four states: the key is missing, the key
  is present with the value \<^verbatim>\<open>undefined\<close>, the key is present with the value
  \<^verbatim>\<open>null\<close>, or the key is present with a proper value. Reading a missing key gives
  \<^verbatim>\<open>undefined\<close>; the difference between the first two states is seen only by the
  object spread and by \<^verbatim>\<open>Object.keys\<close>.
\<close>

datatype 'a slot = Missing | Undefined | Null | Val 'a

text \<open>The property read \<^verbatim>\<open>o.k\<close>.\<close>

fun rd :: "'a slot \<Rightarrow> 'a slot" where
  "rd Missing = Undefined"
| "rd Undefined = Undefined"
| "rd Null = Null"
| "rd (Val v) = Val v"

fun nullish :: "'a slot \<Rightarrow> bool" where
  "nullish (Val v) = False"
| "nullish Missing = True"
| "nullish Undefined = True"
| "nullish Null = True"

text \<open>The nullish coalescing operator \<^verbatim>\<open>a ?? b\<close> on values already read.\<close>

definition coalesce :: "'a slot \<Rightarrow> 'a slot \<Rightarrow> 'a slot" where
  "coalesce a b = (if nullish a then b else a)"

text \<open>The optional chain \<^verbatim>\<open>r?.f\<close> on a row that may be \<^verbatim>\<open>undefined\<close>.\<close>

definition opt_chain :: "('r \<Rightarrow> 'a slot) \<Rightarrow> 'r option \<Rightarrow> 'a slot" where
  "opt_chain f r = (case r of None \<Rightarrow> Undefined | Some x \<Rightarrow> rd (f x))"

text \<open>A value that reads as \<^verbatim>\<open>undefined\<close>: the attribute is absent.\<close>

fun absent :: "'a slot \<Rightarrow> bool" where
  "absent Missing = True"
| "absent Undefined = True"
| "absent Null = False"
| "absent (Val v) = False"

section \<open>Persisted structures (db.ts)\<close>

text \<open>
  \<^verbatim>\<open>DocJSON\<close> is \<^verbatim>\<open>unknown\<close> in the source and opaque to the autosave code. Its proper
  (non-nullish) values are modelled by a small JSON tree; \<^verbatim>\<open>null\<close> and
  \<^verbatim>\<open>undefined\<close> at the top are states of the slot that holds it.
\<close>

datatype DocJSON =
    JBool bool
  | JNum int
  | JStr string
  | JArr "DocJSON list"
  | JObj "(string \<times> DocJSON) list"

record SelectionSnapshot =
  sel_from :: int
  sel_to :: int

text \<open>
  Versions and timestamps are JavaScript numbers holding non-negative integers; they are
  modelled as natural numbers (the arithmetic of the source on them, \<^verbatim>\<open>+ 1\<close> and
  comparison, is exact on integers below \<open>2 ^ 53\<close>).
\<close>

record DraftRecord =
  draft_id :: string
  projectName :: "string slot"
  promptName :: "string slot"
  docJson :: "DocJSON slot"
  selection :: "SelectionSnapshot slot"
  updatedAt :: nat
  version :: nat

text \<open>\<^verbatim>\<open>id?: number\<close>: a row not yet added has no id; the store assigns one.\<close>

record SnapshotRecord =
  snap_id :: "nat option"
  snap_draftId :: string
  snap_docJson :: "DocJSON slot"
  snap_selection :: "SelectionSnapshot slot"
  createdAt :: nat

section \<open>The store\<close>

text \<open>
  The two tables the autosave code uses. \<^verbatim>\<open>drafts\<close> has the primary key
  \<^verbatim>\<open>id\<close>: a map from identity to row. \<^verbatim>\<open>snapshots\<close> has the auto-incremented
  primary key \<^verbatim>\<open>++id\<close>: the rows in ascending key order, and the key generator's
  current number, which starts at 1 and is never reused.
\<close>

record db =
  drafts :: "string \<rightharpoonup> DraftRecord"
  snapshots :: "SnapshotRecord list"
  nextId :: nat

definition empty_db :: db where
  "empty_db = \<lparr>drafts = Map.empty, snapshots = [], nextId = 1\<rparr>"

datatype store_op =
    DraftsGet
  | DraftsPut
  | SnapshotsGet
  | SnapshotsAdd
  | SnapshotsCount
  | SnapshotsSortBy
  | SnapshotsBulkDelete

datatype error = StorageFailure store_op

text \<open>
  Every storage call may be rejected by the engine (quota exceeded, engine unavailable).
  A fault plan says which calls are rejected; a rejected call changes nothing.
\<close>

type_synonym faults = "store_op \<Rightarrow> bool"

definition no_faults :: faults where
  "no_faults = (\<lambda>_. False)"

definition drafts_get :: "faults \<Rightarrow> string \<Rightarrow> db \<Rightarrow> error + DraftRecord option" where
  "drafts_get f k d = (if f DraftsGet then Inl (StorageFailure DraftsGet) else Inr (drafts d k))"

definition drafts_put :: "faults \<Rightarrow> DraftRecord \<Rightarrow> db \<Rightarrow> error + db" where
  "drafts_put f r d =
     (if f DraftsPut then Inl (StorageFailure DraftsPut)
      else Inr (d\<lparr>drafts := (drafts d)(draft_id r \<mapsto> r)\<rparr>))"

definition snapshots_get :: "faults \<Rightarrow> nat \<Rightarrow> db \<Rightarrow> error + SnapshotRecord option" where
  "snapshots_get f k d =
     (if f SnapshotsGet then Inl (StorageFailure SnapshotsGet)
      else Inr (find (\<lambda>s. snap_id s = Some k) (snapshots d)))"

text \<open>\<^verbatim>\<open>add\<close> of a row without id: the key generator gives the key and advances.\<close>

definition snapshots_add :: "faults \<Rightarrow> SnapshotRecord \<Rightarrow> db \<Rightarrow> error + db" where
  "snapshots_add f r d =
     (if f SnapshotsAdd then Inl (StorageFailure SnapshotsAdd)
      else Inr (d\<lparr>snapshots := snapshots d @ [r\<lparr>snap_id := Some (nextId d)\<rparr>],
                  nextId := Suc (nextId d)\<rparr>))"

text \<open>\<^verbatim>\<open>where('draftId').equals(k)\<close>: the rows of the index entry, in primary key order.\<close>

definition where_draftId :: "string \<Rightarrow> db \<Rightarrow> SnapshotRecord list" where
  "where_draftId k d = filter (\<lambda>s. snap_draftId s = k) (snapshots d)"

definition snapshots_count :: "faults \<Rightarrow> string \<Rightarrow> db \<Rightarrow> error + nat" where
  "snapshots_count f k d =
     (if f SnapshotsCount then Inl (StorageFailure SnapshotsCount)
      else Inr (length (where_draftId k d)))"

text \<open>
  \<^verbatim>\<open>sortBy('createdAt')\<close> reads the collection into an array and sorts it with
  \<^verbatim>\<open>Array.prototype.sort\<close>, which is stable: rows with equal \<^verbatim>\<open>createdAt\<close> keep
  their primary key order.
\<close>

definition snapshots_sortBy_createdAt :: "faults \<Rightarrow> string \<Rightarrow> db \<Rightarrow> error + SnapshotRecord list" where
  "snapshots_sortBy_createdAt f k d =
     (if f SnapshotsSortBy then Inl (StorageFailure SnapshotsSortBy)
      else Inr (sort_key createdAt (where_draftId k d)))"

definition snapshots_bulkDelete :: "faults \<Rightarrow> nat list \<Rightarrow> db \<Rightarrow> error + db" where
  "snapshots_bulkDelete f ks d =
     (if f SnapshotsBulkDelete then Inl (StorageFailure SnapshotsBulkDelete)
      else Inr (d\<lparr>snapshots := filter (\<lambda>s. snap_id s \<notin> Some ` set ks) (snapshots d)\<rparr>))"

text \<open>
  \<^verbatim>\<open>db.transaction('rw', ...)\<close>: the body runs against the store; when a call inside it
  is rejected the transaction aborts and the store, key generator included, is as before.
\<close>

definition transaction :: "(db \<Rightarrow> error + db) \<Rightarrow> db \<Rightarrow> (error option \<times> db)" where
  "transaction body d = (case body d of Inl e \<Rightarrow> (Some e, d) | Inr d' \<Rightarrow> (None, d'))"

section \<open>The autosave hook (autosave.ts)\<close>

record DraftUpdate =
  upd_projectName :: "string slot"
  upd_promptName :: "string slot"
  upd_docJson :: "DocJSON slot"
  upd_selection :: "SelectionSnapshot slot"

text \<open>The object literal \<^verbatim>\<open>{}\<close>.\<close>

definition empty_update :: DraftUpdate where
  "empty_update = \<lparr>upd_projectName = Missing, upd_promptName = Missing,
                    upd_docJson = Missing, upd_selection = Missing\<rparr>"

text \<open>\<^verbatim>\<open>Object.keys(u).length\<close>.\<close>

definition keys_length :: "DraftUpdate \<Rightarrow> nat" where
  "keys_length u =
     (if upd_projectName u = Missing then 0 else 1) + (if upd_promptName u = Missing then 0 else 1)
     + (if upd_docJson u = Missing then 0 else 1) + (if upd_selection u = Missing then 0 else 1)"

text \<open>The truth value of an object reference: every object is truthy, the empty one too.\<close>

definition truthy_object :: "DraftUpdate \<Rightarrow> bool" where
  "truthy_object u = True"

text \<open>The spread \<^verbatim>\<open>{ ...a, ...b }\<close>: every key present in \<open>b\<close> overrides.\<close>

definition spread_slot :: "'a slot \<Rightarrow> 'a slot \<Rightarrow> 'a slot" where
  "spread_slot a b = (if b = Missing then a else b)"

definition spread :: "DraftUpdate \<Rightarrow> DraftUpdate \<Rightarrow> DraftUpdate" where
  "spread a b =
     \<lparr>upd_projectName = spread_slot (upd_projectName a) (upd_projectName b),
      upd_promptName = spread_slot (upd_promptName a) (upd_promptName b),
      upd_docJson = spread_slot (upd_docJson a) (upd_docJson b),
      upd_selection = spread_slot (upd_selection a) (upd_selection b)\<rparr>"

text \<open>
  The state of one \<^verbatim>\<open>useAutosave\<close> instance: the React state \<^verbatim>\<open>draft\<close>,
  \<^verbatim>\<open>saving\<close>, \<^verbatim>\<open>error\<close> and the two refs. \<^verbatim>\<open>timerRef\<close> holds the pending
  timeout, written as the time at which it is due.
\<close>

record hook =
  draft :: "DraftRecord option"
  saving :: bool
  hook_error :: "error option"
  bufferRef :: DraftUpdate
  timerRef :: "nat option"

definition initial_hook :: hook where
  "initial_hook = \<lparr>draft = None, saving = False, hook_error = None,
                    bufferRef = empty_update, timerRef = None\<rparr>"

text \<open>The options of the hook, with the defaults of the source.\<close>

record opts =
  delayMs :: nat
  snapshotLimit :: nat

definition default_opts :: opts where
  "default_opts = \<lparr>delayMs = 1200, snapshotLimit = 20\<rparr>"

subsection \<open>flush\<close>

text \<open>The object \<^verbatim>\<open>next\<close> that flush builds from the buffer content and the prior row.\<close>

definition flush_next :: "string \<Rightarrow> nat \<Rightarrow> DraftUpdate \<Rightarrow> DraftRecord option \<Rightarrow> DraftRecord" where
  "flush_next draftId now update prev =
     \<lparr>draft_id = draftId,
      projectName = coalesce (rd (upd_projectName update)) (opt_chain projectName prev),
      promptName = coalesce (rd (upd_promptName update)) (opt_chain promptName prev),
      docJson = coalesce (rd (upd_docJson update)) (opt_chain docJson prev),
      selection = coalesce (coalesce (rd (upd_selection update)) (opt_chain selection prev)) Null,
      updatedAt = now,
      version = (case prev of None \<Rightarrow> 0 | Some p \<Rightarrow> version p) + 1\<rparr>"

text \<open>\<^verbatim>\<open>.map(s => s.id!).filter(Boolean)\<close>: the ids that are numbers other than 0.\<close>

definition truthy_ids :: "nat option list \<Rightarrow> nat list" where
  "truthy_ids ks = concat (map (\<lambda>k. case k of None \<Rightarrow> [] | Some i \<Rightarrow> if i = 0 then [] else [i]) ks)"

text \<open>The ring: the part of the transaction after the snapshot was added.\<close>

definition enforce_ring :: "faults \<Rightarrow> string \<Rightarrow> nat \<Rightarrow> db \<Rightarrow> error + db" where
  "enforce_ring f draftId limit d =
     (case snapshots_count f draftId d of
        Inl e \<Rightarrow> Inl e
      | Inr count \<Rightarrow>
          if count > limit then
            (let toDelete = count - limit in
             case snapshots_sortBy_createdAt f draftId d of
               Inl e \<Rightarrow> Inl e
             | Inr oldest \<Rightarrow>
                 (let ids = truthy_ids (map snap_id (take toDelete oldest)) in
                  if length ids \<noteq> 0 then snapshots_bulkDelete f ids d else Inr d))
          else Inr d)"

text \<open>The body of the transaction of flush.\<close>

definition flush_body :: "faults \<Rightarrow> string \<Rightarrow> nat \<Rightarrow> nat \<Rightarrow> DraftRecord \<Rightarrow> db \<Rightarrow> error + db" where
  "flush_body f draftId limit now nxt d =
     (case drafts_put f nxt d of
        Inl e \<Rightarrow> Inl e
      | Inr d1 \<Rightarrow>
          (case snapshots_add f
                  \<lparr>snap_id = None, snap_draftId = draftId, snap_docJson = docJson nxt,
                   snap_selection = coalesce (selection nxt) Null, createdAt = now\<rparr> d1 of
             Inl e \<Rightarrow> Inl e
           | Inr d2 \<Rightarrow> enforce_ring f draftId limit d2))"

text \<open>
  flush has two suspension points. Up to the first one it takes the buffer, clears it and
  asks for the prior row; \<open>flush_begin\<close> gives the state then, with the row that was
  read. \<open>flush_commit\<close> is the rest: the transaction and the state updates after it.
\<close>

definition flush_begin :: "hook \<Rightarrow> DraftUpdate \<times> hook" where
  "flush_begin h = (bufferRef h, h\<lparr>bufferRef := empty_update, saving := True, hook_error := None\<rparr>)"

definition flush_commit ::
  "faults \<Rightarrow> string \<Rightarrow> opts \<Rightarrow> nat \<Rightarrow> DraftUpdate \<Rightarrow> error + DraftRecord option \<Rightarrow> hook \<times> db \<Rightarrow> hook \<times> db" where
  "flush_commit f draftId os now update got st =
     (case got of
        Inl e \<Rightarrow> (fst st\<lparr>hook_error := Some e, saving := False\<rparr>, snd st)
      | Inr prev \<Rightarrow>
          (let nxt = flush_next draftId now update prev in
           case transaction (flush_body f draftId (snapshotLimit os) now nxt) (snd st) of
             (Some e, d') \<Rightarrow> (fst st\<lparr>hook_error := Some e, saving := False\<rparr>, d')
           | (None, d') \<Rightarrow> (fst st\<lparr>draft := Some nxt, saving := False\<rparr>, d')))"

text \<open>flush with nothing else running between its suspension points.\<close>

definition flush :: "faults \<Rightarrow> string \<Rightarrow> opts \<Rightarrow> nat \<Rightarrow> hook \<times> db \<Rightarrow> hook \<times> db" where
  "flush f draftId os now st =
     (if \<not> truthy_object (bufferRef (fst st)) then st
      else (let (update, h1) = flush_begin (fst st) in
            flush_commit f draftId os now update (drafts_get f draftId (snd st)) (h1, snd st)))"

text \<open>
  flush with another task \<open>other\<close> running at its first suspension point, that is
  between the read of the prior row and the transaction.
\<close>

definition flush_interleaved ::
  "faults \<Rightarrow> string \<Rightarrow> opts \<Rightarrow> nat \<Rightarrow> (hook \<times> db \<Rightarrow> hook \<times> db) \<Rightarrow> hook \<times> db \<Rightarrow> hook \<times> db" where
  "flush_interleaved f draftId os now other st =
     (if \<not> truthy_object (bufferRef (fst st)) then st
      else (let (update, h1) = flush_begin (fst st);
                got = drafts_get f draftId (snd st)
            in flush_commit f draftId os now update got (other (h1, snd st))))"

subsection \<open>onChange and the lifecycle handlers\<close>

text \<open>
  onChange merges into the buffer, clears the pending timeout and arms a new one, due
  \<^verbatim>\<open>delayMs\<close> after the call.
\<close>

definition onChange :: "opts \<Rightarrow> nat \<Rightarrow> DraftUpdate \<Rightarrow> hook \<Rightarrow> hook" where
  "onChange os now update h =
     h\<lparr>bufferRef := spread (bufferRef h) update, timerRef := Some (now + delayMs os)\<rparr>"

text \<open>The callback of the timeout.\<close>

definition timer_fired :: "faults \<Rightarrow> string \<Rightarrow> opts \<Rightarrow> nat \<Rightarrow> hook \<times> db \<Rightarrow> hook \<times> db" where
  "timer_fired f draftId os now st = flush f draftId os now (fst st\<lparr>timerRef := None\<rparr>, snd st)"

text \<open>
  \<^verbatim>\<open>visibilitychange\<close> to hidden, and \<^verbatim>\<open>pagehide\<close>: the pending timeout is cleared and
  flush runs, whatever the buffer holds.
\<close>

definition onPageHide :: "faults \<Rightarrow> string \<Rightarrow> opts \<Rightarrow> nat \<Rightarrow> hook \<times> db \<Rightarrow> hook \<times> db" where
  "onPageHide f draftId os now st = flush f draftId os now (fst st\<lparr>timerRef := None\<rparr>, snd st)"

definition onVisibility :: "faults \<Rightarrow> string \<Rightarrow> opts \<Rightarrow> nat \<Rightarrow> bool \<Rightarrow> hook \<times> db \<Rightarrow> hook \<times> db" where
  "onVisibility f draftId os now hidden st =
     (if hidden then flush f draftId os now (fst st\<lparr>timerRef := None\<rparr>, snd st) else st)"

text \<open>The cleanup on unmount: the only caller that looks at the keys of the buffer.\<close>

definition unmount :: "faults \<Rightarrow> string \<Rightarrow> opts \<Rightarrow> nat \<Rightarrow> hook \<times> db \<Rightarrow> hook \<times> db" where
  "unmount f draftId os now st =
     (let st1 = (fst st\<lparr>timerRef := None\<rparr>, snd st) in
      if truthy_object (bufferRef (fst st1)) \<and> keys_length (bufferRef (fst st1)) > 0
      then flush f draftId os now st1 else st1)"

subsection \<open>restoreFromSnapshot\<close>

text \<open>How the promise of an async function settles.\<close>

datatype outcome = Resolved | Rejected error

definition restore_next :: "string \<Rightarrow> nat \<Rightarrow> SnapshotRecord \<Rightarrow> DraftRecord option \<Rightarrow> DraftRecord" where
  "restore_next draftId now snap prev =
     \<lparr>draft_id = draftId,
      projectName = opt_chain projectName prev,
      promptName = opt_chain promptName prev,
      docJson = rd (snap_docJson snap),
      selection = coalesce (rd (snap_selection snap)) Null,
      updatedAt = now,
      version = (case prev of None \<Rightarrow> 0 | Some p \<Rightarrow> version p) + 1\<rparr>"

definition restoreFromSnapshot ::
  "faults \<Rightarrow> string \<Rightarrow> nat \<Rightarrow> nat \<Rightarrow> hook \<times> db \<Rightarrow> outcome \<times> hook \<times> db" where
  "restoreFromSnapshot f draftId now snapshotId st =
     (case snapshots_get f snapshotId (snd st) of
        Inl e \<Rightarrow> (Rejected e, st)
      | Inr None \<Rightarrow> (Resolved, st)
      | Inr (Some snap) \<Rightarrow>
          (case drafts_get f draftId (snd st) of
             Inl e \<Rightarrow> (Rejected e, st)
           | Inr prev \<Rightarrow>
               (let nxt = restore_next draftId now snap prev in
                case drafts_put f nxt (snd st) of
                  Inl e \<Rightarrow> (Rejected e, st)
                | Inr d' \<Rightarrow> (Resolved, fst st\<lparr>draft := Some nxt\<rparr>, d'))))"

section \<open>Runs of the hook\<close>

definition current_version :: "string \<Rightarrow> db \<Rightarrow> nat" where
  "current_version draftId d = (case drafts d draftId of None \<Rightarrow> 0 | Some r \<Rightarrow> version r)"

subsection \<open>Calls in flight\<close>

text \<open>
  The handlers start flush without awaiting it (\<^verbatim>\<open>void flush()\<close>), and both flush and
  restoreFromSnapshot give up control at every \<^verbatim>\<open>await\<close>. A call in flight is a task:
  the await it is suspended at, with the local values it holds. flush awaits
  \<^verbatim>\<open>db.drafts.get\<close> and then the transaction; restoreFromSnapshot awaits
  \<^verbatim>\<open>db.snapshots.get\<close>, \<^verbatim>\<open>db.drafts.get\<close> and \<^verbatim>\<open>db.drafts.put\<close>.
\<close>

datatype task =
    FlushGet faults nat DraftUpdate
  | FlushTx faults nat DraftUpdate "DraftRecord option"
  | RestoreGetSnap faults nat
  | RestoreGetDraft faults nat SnapshotRecord
  | RestorePut faults DraftRecord

text \<open>
  The log of a run: for each flush whose transaction committed, the buffer content it took
  and the version of the Draft row after it; for each restore whose put went through, the
  version of the Draft row after it.
\<close>

datatype entry = Flushed DraftUpdate nat | Restored nat

fun entry_version :: "entry \<Rightarrow> nat" where
  "entry_version (Flushed u v) = v"
| "entry_version (Restored v) = v"

record world =
  w_hook :: hook
  w_db :: db
  w_tasks :: "task list"
  w_log :: "entry list"

definition observed :: "world \<Rightarrow> nat list" where
  "observed w = map entry_version (w_log w)"

text \<open>Task \<open>i\<close> has run to its end; task \<open>i\<close> is suspended again, as \<open>t\<close>.\<close>

definition finish :: "nat \<Rightarrow> world \<Rightarrow> world" where
  "finish i w = w\<lparr>w_tasks := take i (w_tasks w) @ drop (Suc i) (w_tasks w)\<rparr>"

definition suspend :: "nat \<Rightarrow> task \<Rightarrow> world \<Rightarrow> world" where
  "suspend i t w = w\<lparr>w_tasks := (w_tasks w)[i := t]\<rparr>"

text \<open>
  The call \<^verbatim>\<open>flush()\<close> at time \<open>now\<close>: the part of flush up to its first await, which
  leaves the task suspended at \<^verbatim>\<open>db.drafts.get\<close>.
\<close>

definition call_flush :: "faults \<Rightarrow> nat \<Rightarrow> world \<Rightarrow> world" where
  "call_flush f now w =
     (if \<not> truthy_object (bufferRef (w_hook w)) then w
      else (let (update, h1) = flush_begin (w_hook w)
            in w\<lparr>w_hook := h1, w_tasks := w_tasks w @ [FlushGet f now update]\<rparr>))"

definition call_restore :: "faults \<Rightarrow> nat \<Rightarrow> world \<Rightarrow> world" where
  "call_restore f snapshotId w = w\<lparr>w_tasks := w_tasks w @ [RestoreGetSnap f snapshotId]\<rparr>"

text \<open>
  Task \<open>i\<close> resumes at time \<open>t\<close>: the storage call it awaits settles against the store as
  it is now, and the task runs on to its next await or to its end.
\<close>

fun resume_task :: "string \<Rightarrow> opts \<Rightarrow> nat \<Rightarrow> nat \<Rightarrow> task \<Rightarrow> world \<Rightarrow> world" where
  "resume_task draftId os i t (FlushGet f now update) w =
     (case drafts_get f draftId (w_db w) of
        Inl e \<Rightarrow>
          (let st = flush_commit f draftId os now update (Inl e) (w_hook w, w_db w)
           in finish i (w\<lparr>w_hook := fst st, w_db := snd st\<rparr>))
      | Inr prev \<Rightarrow> suspend i (FlushTx f now update prev) w)"
| "resume_task draftId os i t (FlushTx f now update prev) w =
     (let st = flush_commit f draftId os now update (Inr prev) (w_hook w, w_db w);
          committed = (fst (transaction (flush_body f draftId (snapshotLimit os) now
                              (flush_next draftId now update prev)) (w_db w)) = None)
      in finish i (w\<lparr>w_hook := fst st, w_db := snd st,
                     w_log := w_log w @ (if committed
                                         then [Flushed update (current_version draftId (snd st))]
                                         else [])\<rparr>))"
| "resume_task draftId os i t (RestoreGetSnap f snapshotId) w =
     (case snapshots_get f snapshotId (w_db w) of
        Inl e \<Rightarrow> finish i w
      | Inr None \<Rightarrow> finish i w
      | Inr (Some snap) \<Rightarrow> suspend i (RestoreGetDraft f t snap) w)"
| "resume_task draftId os i t (RestoreGetDraft f now snap) w =
     (case drafts_get f draftId (w_db w) of
        Inl e \<Rightarrow> finish i w
      | Inr prev \<Rightarrow> suspend i (RestorePut f (restore_next draftId now snap prev)) w)"
| "resume_task draftId os i t (RestorePut f nxt) w =
     (case drafts_put f nxt (w_db w) of
        Inl e \<Rightarrow> finish i w
      | Inr d' \<Rightarrow>
          finish i (w\<lparr>w_hook := (w_hook w)\<lparr>draft := Some nxt\<rparr>, w_db := d',
                       w_log := w_log w @ [Restored (current_version draftId d')]\<rparr>))"

text \<open>
  What happens to one hook instance, one thing at a time: an edit, a call of flush (from the
  timeout or a lifecycle handler), a call of restoreFromSnapshot, or the task at position
  \<open>i\<close> of the calls in flight resuming.
\<close>

datatype act = Edit nat DraftUpdate | CallFlush faults nat | CallRestore faults nat | Resume nat nat

fun act_step :: "string \<Rightarrow> opts \<Rightarrow> act \<Rightarrow> world \<Rightarrow> world" where
  "act_step draftId os (Edit now u) w = w\<lparr>w_hook := onChange os now u (w_hook w)\<rparr>"
| "act_step draftId os (CallFlush f now) w = call_flush f now w"
| "act_step draftId os (CallRestore f snapshotId) w = call_restore f snapshotId w"
| "act_step draftId os (Resume i t) w =
     (if i < length (w_tasks w) then resume_task draftId os i t (w_tasks w ! i) w else w)"

fun run_acts :: "string \<Rightarrow> opts \<Rightarrow> act list \<Rightarrow> world \<Rightarrow> world" where
  "run_acts draftId os [] w = w"
| "run_acts draftId os (a # as) w = run_acts draftId os as (act_step draftId os a w)"

text \<open>
  A run in which no call overlaps another: flush and restoreFromSnapshot are only called
  when no call is in flight.
\<close>

fun is_call :: "act \<Rightarrow> bool" where
  "is_call (CallFlush f now) = True"
| "is_call (CallRestore f snapshotId) = True"
| "is_call (Edit now u) = False"
| "is_call (Resume i t) = False"

fun serial :: "string \<Rightarrow> opts \<Rightarrow> act list \<Rightarrow> world \<Rightarrow> bool" where
  "serial draftId os [] w = True"
| "serial draftId os (a # as) w =
     ((is_call a \<longrightarrow> w_tasks w = []) \<and> serial draftId os as (act_step draftId os a w))"

subsection \<open>Timed runs\<close>

text \<open>
  A run against a clock in milliseconds. The state carries a log of the flushes that ran:
  the time of each and the buffer content it took. \<open>advance\<close> lets the clock reach
  \<open>t\<close>: a timeout that is due by then fires, at its due time.
\<close>

type_synonym sched = "(hook \<times> db) \<times> (nat \<times> DraftUpdate) list"

definition advance :: "faults \<Rightarrow> string \<Rightarrow> opts \<Rightarrow> nat \<Rightarrow> sched \<Rightarrow> sched" where
  "advance f draftId os t w =
     (case timerRef (fst (fst w)) of
        None \<Rightarrow> w
      | Some due \<Rightarrow>
          if due \<le> t
          then (timer_fired f draftId os due (fst w), snd w @ [(due, bufferRef (fst (fst w)))])
          else w)"

fun run_changes :: "faults \<Rightarrow> string \<Rightarrow> opts \<Rightarrow> (nat \<times> DraftUpdate) list \<Rightarrow> sched \<Rightarrow> sched" where
  "run_changes f draftId os [] w = w"
| "run_changes f draftId os (e # es) w =
     run_changes f draftId os es
       (let w1 = advance f draftId os (fst e) w
        in ((onChange os (fst e) (snd e) (fst (fst w1)), snd (fst w1)), snd w1))"

text \<open>Each call comes no earlier than the one before it and less than \<open>delay\<close> after it.\<close>

fun spaced_within :: "nat \<Rightarrow> nat list \<Rightarrow> bool" where
  "spaced_within delay [] = True"
| "spaced_within delay [t] = True"
| "spaced_within delay (t # t' # ts) = (t \<le> t' \<and> t' < t + delay \<and> spaced_within delay (t' # ts))"

section \<open>Notions of the specification\<close>

text \<open>The primary key of a stored snapshot row.\<close>

definition row_key :: "SnapshotRecord \<Rightarrow> nat" where
  "row_key s = (case snap_id s of None \<Rightarrow> 0 | Some i \<Rightarrow> i)"

text \<open>
  What the store guarantees of the snapshots table: the key generator's current number is
  at least 1, every row has a key, which the key generator gave (from 1 on, below its
  current number), and the rows are in strictly ascending key order.
\<close>

definition wf_db :: "db \<Rightarrow> bool" where
  "wf_db d \<longleftrightarrow>
     0 < nextId d
     \<and> (\<forall>s \<in> set (snapshots d). snap_id s \<noteq> None \<and> 0 < row_key s \<and> row_key s < nextId d)
     \<and> sorted_wrt (\<lambda>a b. row_key a < row_key b) (snapshots d)"

text \<open>The eviction order: older by \<^verbatim>\<open>createdAt\<close>, ties broken by ascending id.\<close>

definition older :: "SnapshotRecord \<Rightarrow> SnapshotRecord \<Rightarrow> bool" where
  "older r s \<longleftrightarrow> createdAt r < createdAt s \<or> (createdAt r = createdAt s \<and> row_key r < row_key s)"

text \<open>The rows that eviction removes: the first ones of the sorted collection.\<close>

definition evicted :: "string \<Rightarrow> nat \<Rightarrow> db \<Rightarrow> SnapshotRecord list" where
  "evicted draftId limit d =
     take (length (where_draftId draftId d) - limit) (sort_key createdAt (where_draftId draftId d))"

text \<open>The rows that stay: the rest of the sorted collection.\<close>

definition retained :: "string \<Rightarrow> nat \<Rightarrow> db \<Rightarrow> SnapshotRecord list" where
  "retained draftId limit d =
     drop (length (where_draftId draftId d) - limit) (sort_key createdAt (where_draftId draftId d))"

text \<open>
  The attribute rule in the words of the specification: the buffered value if present,
  else the prior row's value, else absent. A value that is \<^verbatim>\<open>null\<close> is present.
\<close>

definition spec_attr :: "'a slot \<Rightarrow> 'a slot \<Rightarrow> 'a slot" where
  "spec_attr buffered prior =
     (if \<not> absent buffered then buffered else if \<not> absent prior then prior else Undefined)"

text \<open>
  The left-to-right merge of one attribute: the last update that has the key decides; with
  none, the attribute stays as it was.
\<close>

definition merged_attr :: "'a slot \<Rightarrow> 'a slot list \<Rightarrow> 'a slot" where
  "merged_attr a xs = (case filter (\<lambda>s. s \<noteq> Missing) xs of [] \<Rightarrow> a | y # ys \<Rightarrow> last (y # ys))"

text \<open>
  A call in flight holds nothing stale: the row a flush read is still the row of the store,
  and the next state a restore is about to put carries the version after the one stored.
\<close>

fun task_fresh :: "string \<Rightarrow> db \<Rightarrow> task \<Rightarrow> bool" where
  "task_fresh draftId d (FlushGet f now update) = True"
| "task_fresh draftId d (FlushTx f now update prev) = (prev = drafts d draftId)"
| "task_fresh draftId d (RestoreGetSnap f snapshotId) = True"
| "task_fresh draftId d (RestoreGetDraft f now snap) = True"
| "task_fresh draftId d (RestorePut f nxt) =
     (draft_id nxt = draftId \<and> version nxt = current_version draftId d + 1)"

text \<open>At most one call is in flight, and it holds nothing stale.\<close>

definition quiet :: "string \<Rightarrow> world \<Rightarrow> bool" where
  "quiet draftId w \<longleftrightarrow>
     (case w_tasks w of [] \<Rightarrow> True | [t] \<Rightarrow> task_fresh draftId (w_db w) t | t # t' # ts \<Rightarrow> False)"

text \<open>
  One step of a run without overlap: no call gets stale, and either the log and the version
  stay, or one entry is logged with the version one above the one before.
\<close>

definition stepped :: "string \<Rightarrow> world \<Rightarrow> world \<Rightarrow> bool" where
  "stepped draftId w w' \<longleftrightarrow>
     quiet draftId w'
     \<and> ((observed w' = observed w \<and> current_version draftId (w_db w') = current_version draftId (w_db w))
        \<or> (observed w' = observed w @ [current_version draftId (w_db w) + 1]
            \<and> current_version draftId (w_db w') = current_version draftId (w_db w) + 1))"

text \<open>The flushes of a run that committed with at least one key in the buffer they took.\<close>

definition nonempty_flushes :: "world \<Rightarrow> nat" where
  "nonempty_flushes w =
     length (filter (\<lambda>e. case e of Flushed u v \<Rightarrow> 0 < keys_length u | Restored v \<Rightarrow> False) (w_log w))"

text \<open>
  The Draft row of the identity after the edits \<open>es\<close> and a wait until time \<open>T\<close>, with
  no storage call failing.
\<close>

definition draft_after_quiet ::
  "string \<Rightarrow> opts \<Rightarrow> (nat \<times> DraftUpdate) list \<Rightarrow> nat \<Rightarrow> hook \<times> db \<Rightarrow> DraftRecord option" where
  "draft_after_quiet draftId os es T st =
     drafts (snd (fst (advance no_faults draftId os T (run_changes no_faults draftId os es (st, []))))) draftId"

text \<open>
  What a call reports to its caller and observers: a rejected promise, or a value on the
  error channel of the hook.
\<close>

definition reported :: "outcome \<times> hook \<times> db \<Rightarrow> bool" where
  "reported r \<longleftrightarrow> fst r \<noteq> Resolved \<or> hook_error (fst (snd r)) \<noteq> None"

section \<open>Example states\<close>

definition ex_sel :: SelectionSnapshot where
  "ex_sel = \<lparr>sel_from = 1, sel_to = 2\<rparr>"

definition ex_draft :: DraftRecord where
  "ex_draft = \<lparr>draft_id = ''current'', projectName = Val ''p'', promptName = Undefined,
               docJson = Val (JStr ''a''), selection = Val ex_sel, updatedAt = 1000, version = 1\<rparr>"

definition ex_snap :: SnapshotRecord where
  "ex_snap = \<lparr>snap_id = Some 1, snap_draftId = ''current'', snap_docJson = Val (JStr ''a''),
              snap_selection = Val ex_sel, createdAt = 1000\<rparr>"

text \<open>A snapshot row of another draft identity.\<close>

definition ex_snap_other :: SnapshotRecord where
  "ex_snap_other = \<lparr>snap_id = Some 2, snap_draftId = ''other'', snap_docJson = Val (JStr ''z''),
                    snap_selection = Null, createdAt = 1200\<rparr>"

text \<open>The store after one flush of \<^verbatim>\<open>current\<close> and one of \<^verbatim>\<open>other\<close>.\<close>

definition ex_db :: db where
  "ex_db = \<lparr>drafts = [''current'' \<mapsto> ex_draft], snapshots = [ex_snap, ex_snap_other], nextId = 3\<rparr>"

text \<open>
  A store over the limit of 2 for \<^verbatim>\<open>current\<close>: three rows, the two oldest with equal
  \<^verbatim>\<open>createdAt\<close>.
\<close>

definition ex_snap3 :: SnapshotRecord where
  "ex_snap3 = \<lparr>snap_id = Some 3, snap_draftId = ''current'', snap_docJson = Val (JStr ''b''),
               snap_selection = Null, createdAt = 1000\<rparr>"

definition ex_snap4 :: SnapshotRecord where
  "ex_snap4 = \<lparr>snap_id = Some 4, snap_draftId = ''current'', snap_docJson = Val (JStr ''c''),
               snap_selection = Null, createdAt = 3000\<rparr>"

definition ex_db_over :: db where
  "ex_db_over = \<lparr>drafts = [''current'' \<mapsto> ex_draft],
                  snapshots = [ex_snap, ex_snap_other, ex_snap3, ex_snap4], nextId = 5\<rparr>"

definition ex_db_ring :: db where
  "ex_db_ring = \<lparr>drafts = [''current'' \<mapsto> ex_draft],
                  snapshots = [ex_snap_other, ex_snap3, ex_snap4], nextId = 5\<rparr>"

definition ex_update :: DraftUpdate where
  "ex_update = \<lparr>upd_projectName = Missing, upd_promptName = Missing,
                upd_docJson = Val (JStr ''b''), upd_selection = Null\<rparr>"

definition ex_update2 :: DraftUpdate where
  "ex_update2 = \<lparr>upd_projectName = Val ''q'', upd_promptName = Missing,
                 upd_docJson = Missing, upd_selection = Missing\<rparr>"

definition ex_opts :: opts where
  "ex_opts = \<lparr>delayMs = 1000, snapshotLimit = 2\<rparr>"

text \<open>A hook with an edit of the project name buffered, over the example store.\<close>

definition ex_hook :: hook where
  "ex_hook = \<lparr>draft = Some ex_draft, saving = False, hook_error = None,
               bufferRef = ex_update2, timerRef = None\<rparr>"

definition ex_state :: "hook \<times> db" where
  "ex_state = (ex_hook, ex_db)"

text \<open>A restore of snapshot 1 as the task that runs while a flush is suspended.\<close>

definition ex_restore_task :: "hook \<times> db \<Rightarrow> hook \<times> db" where
  "ex_restore_task st = snd (restoreFromSnapshot no_faults ''current'' 4000 1 st)"

text \<open>Three edits, each less than the delay of 1000 after the one before.\<close>

definition ex_changes :: "(nat \<times> DraftUpdate) list" where
  "ex_changes = [(0, ex_update2), (400, ex_update), (900, ex_update2)]"

text \<open>A freshly mounted hook over an empty store, no call in flight.\<close>

definition ex_world :: world where
  "ex_world = \<lparr>w_hook = initial_hook, w_db = empty_db, w_tasks = [], w_log = []\<rparr>"

text \<open>
  An edit, then \<^verbatim>\<open>visibilitychange\<close> and \<^verbatim>\<open>pagehide\<close> back to back: two calls of
  flush, the second made while the first awaits its read; then both reads settle, and the
  two transactions commit in the order of the calls.
\<close>

definition ex_overlap :: "act list" where
  "ex_overlap = [Edit 0 ex_update2, CallFlush no_faults 100, CallFlush no_faults 101,
                 Resume 0 102, Resume 1 103, Resume 0 104, Resume 0 105]"

text \<open>
  A run without overlap: an edit and its flush, a second flush, a restore of snapshot 1 and
  a restore of a snapshot that is not stored.
\<close>

definition ex_serial :: "act list" where
  "ex_serial = [Edit 0 ex_update2, CallFlush no_faults 1000, Resume 0 1001, Resume 0 1002,
                CallFlush no_faults 5000, Resume 0 5001, Resume 0 5002,
                CallRestore no_faults 1, Resume 0 6000, Resume 0 6001, Resume 0 6002,
                CallRestore no_faults 99, Resume 0 7000]"

text \<open>
  An edit and the flush that persists it, then two flushes from lifecycle handlers with
  nothing buffered, each call running to its end before the next.
\<close>

definition ex_idle_flushes :: "act list" where
  "ex_idle_flushes = [Edit 0 ex_update2, CallFlush no_faults 1200, Resume 0 1201, Resume 0 1202,
                      CallFlush no_faults 5000, Resume 0 5001, Resume 0 5002,
                      CallFlush no_faults 9000, Resume 0 9001, Resume 0 9002]"

section \<open>Unfolding rules\<close>

lemmas store_defs = drafts_get_def drafts_put_def snapshots_get_def snapshots_add_def
  snapshots_count_def snapshots_sortBy_createdAt_def snapshots_bulkDelete_def where_draftId_def
  transaction_def

lemmas flush_defs = flush_def flush_begin_def flush_commit_def flush_body_def enforce_ring_def
  flush_next_def truthy_object_def truthy_ids_def coalesce_def opt_chain_def Let_def

lemmas ex_defs = ex_sel_def ex_draft_def ex_snap_def ex_snap_other_def ex_snap3_def ex_snap4_def
  ex_db_over_def ex_db_ring_def ex_db_def ex_update_def
  ex_update2_def ex_opts_def ex_hook_def ex_state_def ex_restore_task_def initial_hook_def empty_update_def no_faults_def

section \<open>Flush with an empty buffer\<close>

text \<open>
  Claim C1: if the update buffer is empty when flush runs, flush returns without writing:
  the Draft row is unchanged, version is not incremented and no Snapshot row is added.

  The guard of flush tests the truth value of the buffer object, and the empty object is
  truthy, so flush goes on. On a freshly mounted hook (empty buffer) over a store that has
  the draft at version 1 with one snapshot of it, \<^verbatim>\<open>pagehide\<close> runs flush: the
  version becomes 2 and a second snapshot of the draft is stored. The unmount cleanup is the one caller that
  tests \<^verbatim>\<open>Object.keys(...).length > 0\<close> first.
\<close>

theorem flush_empty_buffer_writes:
  "keys_length (bufferRef initial_hook) = 0
   \<and> current_version ''current'' ex_db = 1
   \<and> length (where_draftId ''current'' ex_db) = 1
   \<and> current_version ''current'' (snd (onPageHide no_faults ''current'' default_opts 5000 (initial_hook, ex_db))) = 2
   \<and> length (where_draftId ''current'' (snd (onPageHide no_faults ''current'' default_opts 5000 (initial_hook, ex_db)))) = 2"
  by (simp add: onPageHide_def flush_defs store_defs initial_hook_def empty_update_def keys_length_def
      ex_db_def ex_draft_def ex_snap_def ex_snap_other_def no_faults_def default_opts_def current_version_def)

section \<open>The next state of flush\<close>

text \<open>
  Claim C2, as stated: for each recognized attribute the next state takes the buffered value
  if present in the buffer, an explicit null selection included, else the prior row's
  value, else leaves it absent. With a buffered selection of \<^verbatim>\<open>null\<close> and a prior row
  that has a selection, the source keeps the prior selection, where the rule of the claim
  gives \<^verbatim>\<open>null\<close>.
\<close>

theorem flush_next_null_selection_counterexample:
  "upd_selection ex_update = Null
   \<and> selection (flush_next ''current'' 5000 ex_update (Some ex_draft))
       \<noteq> spec_attr (upd_selection ex_update) (selection ex_draft)
   \<and> selection (flush_next ''current'' 5000 ex_update (Some ex_draft)) = Val ex_sel
   \<and> spec_attr (upd_selection ex_update) (selection ex_draft) = Null"
  by (simp add: flush_next_def coalesce_def opt_chain_def ex_update_def ex_draft_def spec_attr_def)

text \<open>
  Claim C2, amended: for each recognized attribute the next state takes the buffered value
  if it is neither undefined nor null, else the prior row's value (undefined with no prior
  row); for the selection, when that is undefined or null too, the value is null.
  \<^verbatim>\<open>updatedAt\<close> is the flush time and \<^verbatim>\<open>version\<close> is the prior version plus 1, or
  1 with no prior row.
\<close>

theorem flush_next_attributes:
  "(\<forall>v. upd_projectName u = Val v \<longrightarrow> projectName (flush_next draftId now u prev) = Val v)
   \<and> (\<forall>v. upd_promptName u = Val v \<longrightarrow> promptName (flush_next draftId now u prev) = Val v)
   \<and> (\<forall>v. upd_docJson u = Val v \<longrightarrow> docJson (flush_next draftId now u prev) = Val v)
   \<and> (\<forall>v. upd_selection u = Val v \<longrightarrow> selection (flush_next draftId now u prev) = Val v)
   \<and> (nullish (upd_projectName u) \<longrightarrow> projectName (flush_next draftId now u prev) = opt_chain projectName prev)
   \<and> (nullish (upd_promptName u) \<longrightarrow> promptName (flush_next draftId now u prev) = opt_chain promptName prev)
   \<and> (nullish (upd_docJson u) \<longrightarrow> docJson (flush_next draftId now u prev) = opt_chain docJson prev)
   \<and> (nullish (upd_selection u) \<longrightarrow>
        selection (flush_next draftId now u prev) =
          (if nullish (opt_chain selection prev) then Null else opt_chain selection prev))
   \<and> updatedAt (flush_next draftId now u prev) = now
   \<and> version (flush_next draftId now u prev) = (case prev of None \<Rightarrow> 1 | Some p \<Rightarrow> version p + 1)
   \<and> draft_id (flush_next draftId now u prev) = draftId"
  by (cases "upd_projectName u"; cases "upd_promptName u"; cases "upd_docJson u"; cases "upd_selection u")
     (simp_all add: flush_next_def coalesce_def split: option.splits)

theorem flush_next_attributes_witness:
  "upd_docJson ex_update = Val (JStr ''b'') \<and> nullish (upd_selection ex_update)
   \<and> nullish (upd_projectName ex_update)
   \<and> docJson (flush_next ''current'' 5000 ex_update (Some ex_draft)) = Val (JStr ''b'')
   \<and> selection (flush_next ''current'' 5000 ex_update (Some ex_draft)) = Val ex_sel
   \<and> projectName (flush_next ''current'' 5000 ex_update (Some ex_draft)) = Val ''p''
   \<and> version (flush_next ''current'' 5000 ex_update (Some ex_draft)) = 2"
proof -
  have h1: "upd_docJson ex_update = Val (JStr ''b'')"
    by (simp add: ex_update_def)
  have h2: "nullish (upd_selection ex_update)" "nullish (upd_projectName ex_update)"
    by (simp_all add: ex_update_def)
  have h3: "opt_chain selection (Some ex_draft) = Val ex_sel" "opt_chain projectName (Some ex_draft) = Val ''p''"
    by (simp_all add: opt_chain_def ex_draft_def)
  have h4: "version ex_draft = 1"
    by (simp add: ex_draft_def)
  show ?thesis
    using h1 h2 h3 h4 flush_next_attributes [of ex_update "''current''" 5000 "Some ex_draft"]
    by simp
qed

section \<open>Restore\<close>



text \<open>
  Claim C9, as stated: for a snapshotId with no stored row, restore is a no-op that reports
  not found. The source returns at once: its promise resolves as it does after a restore
  that was applied, and the error channel of the hook stays empty, so nothing is reported.
\<close>

theorem restore_missing_unreported_counterexample:
  "snapshots_get no_faults 99 ex_db = Inr None
   \<and> \<not> reported (restoreFromSnapshot no_faults ''current'' 6000 99 (initial_hook, ex_db))
   \<and> fst (restoreFromSnapshot no_faults ''current'' 6000 99 (initial_hook, ex_db))
       = fst (restoreFromSnapshot no_faults ''current'' 6000 1 (initial_hook, ex_db))"
  by (simp add: restoreFromSnapshot_def reported_def store_defs ex_defs Let_def)

text \<open>
  Claim C9, amended: for a snapshotId with no stored row, restore is a silent no-op: its
  promise resolves, and the Draft row, the snapshots and the state of the hook are all as
  before.
\<close>

theorem restore_missing_silent_noop:
  assumes "find (\<lambda>s. snap_id s = Some k) (snapshots d) = None" and "\<not> f SnapshotsGet"
  shows "restoreFromSnapshot f draftId now k (h, d) = (Resolved, h, d)"
  using assms by (simp add: restoreFromSnapshot_def snapshots_get_def)

theorem restore_missing_silent_noop_witness:
  "find (\<lambda>s. snap_id s = Some 99) (snapshots ex_db) = None \<and> \<not> no_faults SnapshotsGet
   \<and> restoreFromSnapshot no_faults ''current'' 6000 99 (initial_hook, ex_db) = (Resolved, initial_hook, ex_db)"
proof -
  have h1: "find (\<lambda>s. snap_id s = Some 99) (snapshots ex_db) = None"
    by (simp add: ex_defs)
  have h2: "\<not> no_faults SnapshotsGet"
    by (simp add: no_faults_def)
  show ?thesis
    using h1 h2 restore_missing_silent_noop [of 99 ex_db no_faults "''current''" 6000 initial_hook, OF h1 h2]
    by simp
qed

text \<open>
  Claim C10: restore does not check that the snapshot belongs to the draft identity of the
  hook. The snapshot is looked up by snapshotId alone, and the content of a snapshot of
  another identity is written to the Draft row of the hook.
\<close>

theorem restore_ignores_snapshot_owner:
  assumes "find (\<lambda>s. snap_id s = Some k) (snapshots d) = Some snap"
    and "snap_draftId snap \<noteq> draftId"
  shows "snapshots_get no_faults k d = Inr (Some snap)
    \<and> fst (restoreFromSnapshot no_faults draftId now k (h, d)) = Resolved
    \<and> drafts (snd (snd (restoreFromSnapshot no_faults draftId now k (h, d)))) draftId
        = Some (restore_next draftId now snap (drafts d draftId))
    \<and> draft_id (restore_next draftId now snap (drafts d draftId)) = draftId
    \<and> docJson (restore_next draftId now snap (drafts d draftId)) = rd (snap_docJson snap)
    \<and> selection (restore_next draftId now snap (drafts d draftId)) = coalesce (rd (snap_selection snap)) Null
    \<and> version (restore_next draftId now snap (drafts d draftId)) = current_version draftId d + 1"
  using assms
  by (simp add: restoreFromSnapshot_def restore_next_def store_defs no_faults_def Let_def current_version_def
      split: option.splits)

theorem restore_ignores_snapshot_owner_witness:
  "find (\<lambda>s. snap_id s = Some 2) (snapshots ex_db) = Some ex_snap_other
   \<and> snap_draftId ex_snap_other \<noteq> ''current''
   \<and> drafts (snd (snd (restoreFromSnapshot no_faults ''current'' 6000 2 (initial_hook, ex_db)))) ''current''
        = Some (restore_next ''current'' 6000 ex_snap_other (drafts ex_db ''current''))
   \<and> docJson (restore_next ''current'' 6000 ex_snap_other (drafts ex_db ''current'')) = Val (JStr ''z'')"
proof -
  have h1: "find (\<lambda>s. snap_id s = Some 2) (snapshots ex_db) = Some ex_snap_other"
    by (simp add: ex_defs)
  have h2: "snap_draftId ex_snap_other \<noteq> ''current''"
    by (simp add: ex_defs)
  have "rd (snap_docJson ex_snap_other) = Val (JStr ''z'')"
    by (simp add: ex_snap_other_def)
  then show ?thesis
    using h1 h2 restore_ignores_snapshot_owner [OF h1 h2, of 6000 initial_hook]
    by simp
qed

section \<open>The transaction of flush\<close>

lemma flush_body_faults:
  "flush_body f draftId limit now nxt d = Inr d' \<Longrightarrow> flush_body no_faults draftId limit now nxt d = Inr d'"
  by (auto simp: flush_body_def enforce_ring_def store_defs no_faults_def Let_def
      split: if_splits sum.splits)

lemma enforce_ring_frame:
  "enforce_ring f draftId limit d = Inr d' \<Longrightarrow> drafts d' = drafts d \<and> nextId d' = nextId d"
  by (auto simp: enforce_ring_def store_defs Let_def split: if_splits sum.splits)

lemma flush_body_Inr:
  "flush_body f draftId limit now nxt d = Inr d' \<Longrightarrow>
     drafts d' = (drafts d)(draft_id nxt \<mapsto> nxt) \<and> nextId d' = Suc (nextId d)
     \<and> enforce_ring no_faults draftId limit
          (d\<lparr>drafts := (drafts d)(draft_id nxt \<mapsto> nxt),
             snapshots := snapshots d @ [\<lparr>snap_id = Some (nextId d), snap_draftId = draftId,
                 snap_docJson = docJson nxt, snap_selection = coalesce (selection nxt) Null, createdAt = now\<rparr>],
             nextId := Suc (nextId d)\<rparr>) = Inr d'"
  apply (drule flush_body_faults)
  apply (simp add: flush_body_def drafts_put_def snapshots_add_def no_faults_def)
  apply (frule enforce_ring_frame)
  apply simp
  done

lemma flush_cases:
  "(hook_error (fst (flush f draftId os now (h, d))) \<noteq> None \<and> snd (flush f draftId os now (h, d)) = d)
   \<or> (hook_error (fst (flush f draftId os now (h, d))) = None
       \<and> flush f draftId os now (h, d) = flush no_faults draftId os now (h, d)
       \<and> drafts (snd (flush f draftId os now (h, d)))
           = (drafts d)(draftId \<mapsto> flush_next draftId now (bufferRef h) (drafts d draftId))
       \<and> nextId (snd (flush f draftId os now (h, d))) = Suc (nextId d)
       \<and> enforce_ring no_faults draftId (snapshotLimit os)
            (d\<lparr>drafts := (drafts d)(draftId \<mapsto> flush_next draftId now (bufferRef h) (drafts d draftId)),
               snapshots := snapshots d @
                 [\<lparr>snap_id = Some (nextId d), snap_draftId = draftId,
                   snap_docJson = docJson (flush_next draftId now (bufferRef h) (drafts d draftId)),
                   snap_selection = coalesce (selection (flush_next draftId now (bufferRef h) (drafts d draftId))) Null,
                   createdAt = now\<rparr>],
               nextId := Suc (nextId d)\<rparr>)
           = Inr (snd (flush f draftId os now (h, d))))"
proof (cases "f DraftsGet")
  case True
  then show ?thesis
    by (simp add: flush_def flush_begin_def flush_commit_def drafts_get_def truthy_object_def)
next
  case False
  let ?nxt = "flush_next draftId now (bufferRef h) (drafts d draftId)"
  have id: "draft_id ?nxt = draftId"
    by (simp add: flush_next_def)
  show ?thesis
  proof (cases "flush_body f draftId (snapshotLimit os) now ?nxt d")
    case (Inl e)
    with False show ?thesis
      by (simp add: flush_def flush_begin_def flush_commit_def drafts_get_def truthy_object_def
          transaction_def Let_def)
  next
    case (Inr d')
    from flush_body_faults [OF Inr] flush_body_Inr [OF Inr] Inr False id show ?thesis
      by (simp add: flush_def flush_begin_def flush_commit_def drafts_get_def truthy_object_def
          transaction_def Let_def no_faults_def)
  qed
qed

text \<open>
  Claim C3, as stated: the flush algorithm, the read of the prior Draft row included,
  executes as one atomic transaction. The source reads the prior row before it opens the
  transaction. When a restore runs between the two, flush computes the next state from the
  row it read earlier and writes version 2 over the version 2 of the restore; in either
  order of a flush and a restore that do not overlap the version reaches 3.
\<close>

theorem flush_read_outside_transaction_counterexample:
  "current_version ''current'' (snd ex_state) = 1
   \<and> current_version ''current'' (snd (flush_interleaved no_faults ''current'' ex_opts 5000 ex_restore_task ex_state)) = 2
   \<and> current_version ''current'' (snd (flush no_faults ''current'' ex_opts 5000 (ex_restore_task ex_state))) = 3
   \<and> current_version ''current'' (snd (ex_restore_task (flush no_faults ''current'' ex_opts 5000 ex_state))) = 3"
  by (simp add: flush_interleaved_def flush_defs store_defs ex_defs restoreFromSnapshot_def restore_next_def
      current_version_def)

text \<open>
  Claim C3, amended: the upsert of the Draft row, the append of the Snapshot and the
  eviction execute as one atomic transaction, which the read of the prior row precedes.
  Whatever storage call fails, either the flush surfaces an error and the store is exactly
  as before, or the store holds all of it: the Draft row with the next state, the key
  generator advanced for the new Snapshot, and the ring enforced over the table with the
  new Snapshot appended.
\<close>

theorem flush_writes_all_or_nothing:
  "(hook_error (fst (flush f draftId os now (h, d))) \<noteq> None \<and> snd (flush f draftId os now (h, d)) = d)
   \<or> (hook_error (fst (flush f draftId os now (h, d))) = None
       \<and> flush f draftId os now (h, d) = flush no_faults draftId os now (h, d)
       \<and> drafts (snd (flush f draftId os now (h, d)))
           = (drafts d)(draftId \<mapsto> flush_next draftId now (bufferRef h) (drafts d draftId))
       \<and> nextId (snd (flush f draftId os now (h, d))) = Suc (nextId d)
       \<and> enforce_ring no_faults draftId (snapshotLimit os)
            (d\<lparr>drafts := (drafts d)(draftId \<mapsto> flush_next draftId now (bufferRef h) (drafts d draftId)),
               snapshots := snapshots d @
                 [\<lparr>snap_id = Some (nextId d), snap_draftId = draftId,
                   snap_docJson = docJson (flush_next draftId now (bufferRef h) (drafts d draftId)),
                   snap_selection = coalesce (selection (flush_next draftId now (bufferRef h) (drafts d draftId))) Null,
                   createdAt = now\<rparr>],
               nextId := Suc (nextId d)\<rparr>)
           = Inr (snd (flush f draftId os now (h, d))))"
  by (rule flush_cases)

theorem flush_writes_all_or_nothing_witness:
  "hook_error (fst (flush (\<lambda>c. c = SnapshotsAdd) ''current'' ex_opts 5000 (ex_hook, ex_db))) \<noteq> None
   \<and> snd (flush (\<lambda>c. c = SnapshotsAdd) ''current'' ex_opts 5000 (ex_hook, ex_db)) = ex_db
   \<and> hook_error (fst (flush no_faults ''current'' ex_opts 5000 (ex_hook, ex_db))) = None
   \<and> nextId (snd (flush no_faults ''current'' ex_opts 5000 (ex_hook, ex_db))) = Suc (nextId ex_db)"
proof -
  have h1: "hook_error (fst (flush (\<lambda>c. c = SnapshotsAdd) ''current'' ex_opts 5000 (ex_hook, ex_db))) \<noteq> None"
    by (simp add: flush_defs store_defs ex_defs)
  have h2: "hook_error (fst (flush no_faults ''current'' ex_opts 5000 (ex_hook, ex_db))) = None"
    by (simp add: flush_defs store_defs ex_defs)
  have r1: "snd (flush (\<lambda>c. c = SnapshotsAdd) ''current'' ex_opts 5000 (ex_hook, ex_db)) = ex_db"
    apply (insert h1 flush_writes_all_or_nothing [of "\<lambda>c. c = SnapshotsAdd" "''current''" ex_opts 5000 ex_hook ex_db])
    apply (elim disjE conjE)
     apply assumption
    apply (erule notE, assumption)
    done
  have r2: "nextId (snd (flush no_faults ''current'' ex_opts 5000 (ex_hook, ex_db))) = Suc (nextId ex_db)"
    apply (insert h2 flush_writes_all_or_nothing [of no_faults "''current''" ex_opts 5000 ex_hook ex_db])
    apply (elim disjE conjE)
     apply (erule notE, assumption)
    apply assumption
    done
  show ?thesis
    using h1 h2 r1 r2 by (intro conjI)
qed

section \<open>The snapshot ring\<close>

lemma older_trans: "older a b \<Longrightarrow> older b c \<Longrightarrow> older a c"
  by (auto simp: older_def)

lemma sorted_older_insort:
  "sorted_wrt older ys \<Longrightarrow> \<forall>y\<in>set ys. row_key x < row_key y \<Longrightarrow>
     sorted_wrt older (insort_key createdAt x ys)"
proof (induction ys)
  case Nil
  then show ?case by simp
next
  case (Cons y ys)
  show ?case
  proof (cases "createdAt x \<le> createdAt y")
    case True
    have xy: "older x y"
      using True Cons.prems(2) by (auto simp: older_def)
    have "\<forall>z\<in>set ys. older x z"
      using xy Cons.prems(1) by (auto intro: older_trans)
    with xy True Cons.prems(1) show ?thesis by simp
  next
    case False
    have yx: "older y x"
      using False by (simp add: older_def)
    have "sorted_wrt older (insort_key createdAt x ys)"
      using Cons by simp
    moreover have "\<forall>z\<in>set (insort_key createdAt x ys). older y z"
      using yx Cons.prems(1) by (auto simp: set_insort_key)
    ultimately show ?thesis using False by simp
  qed
qed

lemma sorted_older_sort:
  "sorted_wrt (\<lambda>a b. row_key a < row_key b) xs \<Longrightarrow> sorted_wrt older (sort_key createdAt xs)"
proof (induction xs)
  case Nil
  then show ?case by simp
next
  case (Cons x xs)
  then show ?case
    by (simp add: sorted_older_insort)
qed

lemma older_irrefl: "\<not> older a a"
  by (simp add: older_def)

lemma keys_distinct: "sorted_wrt (\<lambda>a b. row_key a < row_key b) xs \<Longrightarrow> distinct (map row_key xs)"
  by (induction xs) auto

lemma keys_inj:
  "sorted_wrt (\<lambda>a b. row_key a < row_key b) xs \<Longrightarrow> a \<in> set xs \<Longrightarrow> b \<in> set xs \<Longrightarrow>
     row_key a = row_key b \<Longrightarrow> a = b"
  using keys_distinct [of xs] by (meson distinct_map inj_on_def)

lemma truthy_ids_keys:
  "\<forall>s\<in>set xs. snap_id s \<noteq> None \<and> 0 < row_key s \<Longrightarrow> truthy_ids (map snap_id xs) = map row_key xs"
  by (induction xs) (auto simp: truthy_ids_def row_key_def split: option.splits)

lemma evicted_subset: "set (evicted draftId limit d) \<subseteq> set (snapshots d)"
proof -
  have "set (evicted draftId limit d) \<subseteq> set (sort_key createdAt (where_draftId draftId d))"
    unfolding evicted_def by (rule set_take_subset)
  then show ?thesis by (auto simp: where_draftId_def)
qed

lemma enforce_ring_result:
  assumes wf: "wf_db d" and res: "enforce_ring f draftId limit d = Inr d'"
  shows "d' = d\<lparr>snapshots := filter (\<lambda>s. s \<notin> set (evicted draftId limit d)) (snapshots d)\<rparr>"
proof (cases "length (where_draftId draftId d) > limit")
  case False
  then have "evicted draftId limit d = []"
    by (simp add: evicted_def)
  moreover have "d' = d"
    using res False by (auto simp: enforce_ring_def snapshots_count_def split: if_splits)
  ultimately show ?thesis by simp
next
  case True
  let ?T = "evicted draftId limit d"
  have sub: "set ?T \<subseteq> set (snapshots d)"
    by (rule evicted_subset)
  have ok: "\<forall>s\<in>set ?T. snap_id s \<noteq> None \<and> 0 < row_key s"
    using wf sub by (auto simp: wf_db_def)
  have ids: "truthy_ids (map snap_id ?T) = map row_key ?T"
    by (rule truthy_ids_keys [OF ok])
  have "length ?T \<noteq> 0"
    using True by (simp add: evicted_def)
  then have ne: "?T \<noteq> []"
    by (simp del: length_0_conv)
  have d': "d' = d\<lparr>snapshots := filter (\<lambda>s. snap_id s \<notin> Some ` set (map row_key ?T)) (snapshots d)\<rparr>"
    using res True ids ne
    by (auto simp: enforce_ring_def snapshots_count_def snapshots_sortBy_createdAt_def
        snapshots_bulkDelete_def Let_def evicted_def split: if_splits)
  have "filter (\<lambda>s. snap_id s \<notin> Some ` set (map row_key ?T)) (snapshots d)
        = filter (\<lambda>s. s \<notin> set ?T) (snapshots d)"
  proof (rule filter_cong [OF refl])
    fix s assume s: "s \<in> set (snapshots d)"
    have key: "snap_id s = Some (row_key s)"
      using wf s by (auto simp: wf_db_def row_key_def)
    show "(snap_id s \<notin> Some ` set (map row_key ?T)) = (s \<notin> set ?T)"
    proof
      assume "snap_id s \<notin> Some ` set (map row_key ?T)"
      then show "s \<notin> set ?T" using key by auto
    next
      assume n: "s \<notin> set ?T"
      show "snap_id s \<notin> Some ` set (map row_key ?T)"
      proof
        assume "snap_id s \<in> Some ` set (map row_key ?T)"
        then obtain t where t: "t \<in> set ?T" "row_key s = row_key t"
          using key by auto
        have "s = t"
          using wf s t sub by (auto simp: wf_db_def intro: keys_inj)
        with t n show False by simp
      qed
    qed
  qed
  with d' show ?thesis by simp
qed

lemma where_distinct: "wf_db d \<Longrightarrow> distinct (where_draftId draftId d)"
proof -
  assume "wf_db d"
  then have "distinct (map row_key (snapshots d))"
    by (simp add: wf_db_def keys_distinct)
  then have "distinct (snapshots d)"
    by (simp add: distinct_map)
  then show ?thesis by (simp add: where_draftId_def)
qed

lemma where_after_ring:
  assumes wf: "wf_db d" and res: "enforce_ring f draftId limit d = Inr d'"
  shows "where_draftId draftId d' = filter (\<lambda>s. s \<notin> set (evicted draftId limit d)) (where_draftId draftId d)"
    and "k \<noteq> draftId \<Longrightarrow> where_draftId k d' = where_draftId k d"
proof -
  note r = enforce_ring_result [OF wf res]
  show "where_draftId draftId d' = filter (\<lambda>s. s \<notin> set (evicted draftId limit d)) (where_draftId draftId d)"
    by (subst r) (auto simp: where_draftId_def intro: filter_cong)
  assume k: "k \<noteq> draftId"
  have "\<forall>s\<in>set (evicted draftId limit d). snap_draftId s = draftId"
  proof
    fix s assume "s \<in> set (evicted draftId limit d)"
    then have "s \<in> set (sort_key createdAt (where_draftId draftId d))"
      unfolding evicted_def by (rule in_set_takeD)
    then show "snap_draftId s = draftId" by (simp add: where_draftId_def)
  qed
  with k show "where_draftId k d' = where_draftId k d"
    by (subst r) (auto simp: where_draftId_def intro!: filter_cong)
qed

lemma set_where_after_ring:
  assumes wf: "wf_db d" and res: "enforce_ring f draftId limit d = Inr d'"
  shows "set (where_draftId draftId d') = set (retained draftId limit d)"
proof -
  let ?S = "sort_key createdAt (where_draftId draftId d)"
  let ?k = "length (where_draftId draftId d) - limit"
  have dis: "distinct ?S"
    using where_distinct [OF wf] by simp
  have "distinct (take ?k ?S @ drop ?k ?S)"
    using dis by simp
  then have disj: "set (take ?k ?S) \<inter> set (drop ?k ?S) = {}"
    by (simp only: distinct_append)
  have un: "set (take ?k ?S) \<union> set (drop ?k ?S) = set (where_draftId draftId d)"
    by (metis append_take_drop_id set_append set_sort)
  have "set (where_draftId draftId d') = set (where_draftId draftId d) - set (take ?k ?S)"
    by (auto simp: where_after_ring(1) [OF wf res] evicted_def)
  also have "\<dots> = set (drop ?k ?S)"
    using disj un by blast
  finally show ?thesis by (simp add: retained_def)
qed

lemma length_where_after_ring:
  assumes wf: "wf_db d" and res: "enforce_ring f draftId limit d = Inr d'"
  shows "length (where_draftId draftId d') = min (length (where_draftId draftId d)) limit"
proof -
  have d1: "distinct (where_draftId draftId d')"
    by (simp add: where_after_ring(1) [OF wf res] where_distinct [OF wf])
  have d2: "distinct (retained draftId limit d)"
    using where_distinct [OF wf, of draftId] by (simp add: retained_def)
  have "length (where_draftId draftId d') = card (set (where_draftId draftId d'))"
    using d1 by (simp add: distinct_card)
  also have "\<dots> = card (set (retained draftId limit d))"
    by (simp add: set_where_after_ring [OF wf res])
  also have "\<dots> = length (retained draftId limit d)"
    using d2 by (simp add: distinct_card)
  also have "\<dots> = min (length (where_draftId draftId d)) limit"
    by (auto simp: retained_def)
  finally show ?thesis .
qed

lemma wf_after_ring:
  assumes wf: "wf_db d" and res: "enforce_ring f draftId limit d = Inr d'"
  shows "wf_db d'"
  using wf by (subst enforce_ring_result [OF wf res]) (auto simp: wf_db_def sorted_wrt_filter)

lemma evicted_retained_sorted:
  "wf_db d \<Longrightarrow> sorted_wrt older (evicted draftId limit d @ retained draftId limit d)"
proof -
  assume "wf_db d"
  then have "sorted_wrt (\<lambda>a b. row_key a < row_key b) (where_draftId draftId d)"
    by (simp add: wf_db_def where_draftId_def sorted_wrt_filter)
  then have "sorted_wrt older (sort_key createdAt (where_draftId draftId d))"
    by (rule sorted_older_sort)
  then show ?thesis
    by (simp only: evicted_def retained_def append_take_drop_id)
qed

text \<open>
  Claim C6: whenever ring eviction deletes Snapshot rows of a draft identity, it deletes
  exactly the oldest ones by \<^verbatim>\<open>createdAt\<close>, ties broken by ascending id, and never a
  row newer than one it retains; the retained rows are the \<^verbatim>\<open>snapshotLimit\<close> most
  recently created ones. Here \<open>enforce_ring\<close> is the eviction step of the transaction
  of flush, on a store as the engine keeps it: the sorted collection splits into the
  evicted rows, which are the rows that leave the table, and the retained rows, which are the
  rows that stay; every evicted row is older than every retained one; the rows of other
  identities stay.
\<close>

theorem eviction_oldest_first:
  assumes "wf_db d" and "enforce_ring f draftId limit d = Inr d'"
  shows "evicted draftId limit d @ retained draftId limit d = sort_key createdAt (where_draftId draftId d)
    \<and> sorted_wrt older (sort_key createdAt (where_draftId draftId d))
    \<and> set (where_draftId draftId d') = set (retained draftId limit d)
    \<and> set (where_draftId draftId d) - set (where_draftId draftId d') = set (evicted draftId limit d)
    \<and> (\<forall>r \<in> set (evicted draftId limit d). \<forall>s \<in> set (retained draftId limit d). older r s)
    \<and> (\<forall>r \<in> set (evicted draftId limit d). \<forall>s \<in> set (retained draftId limit d). createdAt r \<le> createdAt s)
    \<and> length (retained draftId limit d) = min (length (where_draftId draftId d)) limit
    \<and> (\<forall>k. k \<noteq> draftId \<longrightarrow> where_draftId k d' = where_draftId k d)"
proof -
  have split: "evicted draftId limit d @ retained draftId limit d = sort_key createdAt (where_draftId draftId d)"
    by (simp add: evicted_def retained_def)
  have srt: "sorted_wrt older (evicted draftId limit d @ retained draftId limit d)"
    by (rule evicted_retained_sorted [OF assms(1)])
  have ret: "set (where_draftId draftId d') = set (retained draftId limit d)"
    by (rule set_where_after_ring [OF assms])
  have ord: "\<forall>r \<in> set (evicted draftId limit d). \<forall>s \<in> set (retained draftId limit d). older r s"
    using srt by (simp add: sorted_wrt_append)
  have dis: "distinct (evicted draftId limit d @ retained draftId limit d)"
    using where_distinct [OF assms(1), of draftId] by (simp only: split distinct_sort)
  have un: "set (where_draftId draftId d) = set (evicted draftId limit d) \<union> set (retained draftId limit d)"
    by (metis split set_append set_sort)
  have ev: "set (where_draftId draftId d) - set (where_draftId draftId d') = set (evicted draftId limit d)"
    using dis un ret by auto
  have len: "length (retained draftId limit d) = min (length (where_draftId draftId d)) limit"
    by (auto simp: retained_def)
  have oth: "\<forall>k. k \<noteq> draftId \<longrightarrow> where_draftId k d' = where_draftId k d"
    using where_after_ring(2) [OF assms] by blast
  have ord2: "\<forall>r \<in> set (evicted draftId limit d). \<forall>s \<in> set (retained draftId limit d). createdAt r \<le> createdAt s"
    using ord by (fastforce simp: older_def)
  show ?thesis
    using split srt ret ev ord ord2 len oth by (simp only: simp_thms)
qed

theorem eviction_oldest_first_witness:
  "wf_db ex_db_over \<and> enforce_ring no_faults ''current'' 2 ex_db_over = Inr ex_db_ring
   \<and> evicted ''current'' 2 ex_db_over = [ex_snap]
   \<and> set (where_draftId ''current'' ex_db_ring) = set (retained ''current'' 2 ex_db_over)
   \<and> retained ''current'' 2 ex_db_over = [ex_snap3, ex_snap4]"
proof -
  have h1: "wf_db ex_db_over"
    by (simp add: wf_db_def row_key_def ex_defs)
  have h2: "enforce_ring no_faults ''current'' 2 ex_db_over = Inr ex_db_ring"
    by (simp add: enforce_ring_def store_defs truthy_ids_def ex_defs)
  have h3: "evicted ''current'' 2 ex_db_over = [ex_snap]"
    by (simp add: evicted_def where_draftId_def ex_defs)
  have h4: "retained ''current'' 2 ex_db_over = [ex_snap3, ex_snap4]"
    by (simp add: retained_def where_draftId_def ex_defs)
  have "set (where_draftId ''current'' ex_db_ring) = set (retained ''current'' 2 ex_db_over)"
    using eviction_oldest_first [OF h1 h2] by (elim conjE)
  with h1 h2 h3 h4 show ?thesis by (intro conjI)
qed

section \<open>A successful flush\<close>

lemma flush_failed_pair:
  "hook_error (fst (flush f draftId os now (h, d))) \<noteq> None \<Longrightarrow> snd (flush f draftId os now (h, d)) = d"
  apply (insert flush_cases [of f draftId os now h d])
  apply (elim disjE conjE)
   apply assumption
  apply (erule notE, assumption)
  done

lemma flush_failed:
  "hook_error (fst (flush f draftId os now st)) \<noteq> None \<Longrightarrow> snd (flush f draftId os now st) = snd st"
  by (cases st) (simp add: flush_failed_pair)

lemma flush_ok:
  assumes "hook_error (fst (flush f draftId os now (h, d))) = None"
  shows "drafts (snd (flush f draftId os now (h, d)))
           = (drafts d)(draftId \<mapsto> flush_next draftId now (bufferRef h) (drafts d draftId))
    \<and> enforce_ring no_faults draftId (snapshotLimit os)
            (d\<lparr>drafts := (drafts d)(draftId \<mapsto> flush_next draftId now (bufferRef h) (drafts d draftId)),
               snapshots := snapshots d @
                 [\<lparr>snap_id = Some (nextId d), snap_draftId = draftId,
                   snap_docJson = docJson (flush_next draftId now (bufferRef h) (drafts d draftId)),
                   snap_selection = coalesce (selection (flush_next draftId now (bufferRef h) (drafts d draftId))) Null,
                   createdAt = now\<rparr>],
               nextId := Suc (nextId d)\<rparr>)
           = Inr (snd (flush f draftId os now (h, d)))"
  apply (insert flush_cases [of f draftId os now h d] assms)
  apply (elim disjE conjE)
   apply (erule notE, assumption)
  apply (intro conjI; assumption)
  done

lemma wf_db_add:
  assumes "wf_db d"
  shows "wf_db (d\<lparr>drafts := m, snapshots := snapshots d @ [r\<lparr>snap_id := Some (nextId d)\<rparr>],
                   nextId := Suc (nextId d)\<rparr>)"
  using assms by (auto simp: wf_db_def sorted_wrt_append row_key_def less_Suc_eq)

lemma flush_succeeded_store:
  assumes wf: "wf_db (snd st)" and ok: "hook_error (fst (flush f draftId os now st)) = None"
  shows "wf_db (snd (flush f draftId os now st))"
    and "length (where_draftId draftId (snd (flush f draftId os now st)))
           = min (length (where_draftId draftId (snd st)) + 1) (snapshotLimit os)"
proof -
  obtain h d where st: "st = (h, d)" by (cases st)
  let ?nxt = "flush_next draftId now (bufferRef h) (drafts d draftId)"
  let ?d1 = "d\<lparr>drafts := (drafts d)(draftId \<mapsto> ?nxt),
                snapshots := snapshots d @ [\<lparr>snap_id = Some (nextId d), snap_draftId = draftId,
                   snap_docJson = docJson ?nxt, snap_selection = coalesce (selection ?nxt) Null,
                   createdAt = now\<rparr>],
                nextId := Suc (nextId d)\<rparr>"
  let ?d' = "snd (flush f draftId os now (h, d))"
  have ok': "hook_error (fst (flush f draftId os now (h, d))) = None"
    using ok st by simp
  have ring: "enforce_ring no_faults draftId (snapshotLimit os) ?d1 = Inr ?d'"
    using flush_ok [OF ok'] by (rule conjunct2)
  have "wf_db d" using wf st by simp
  from wf_db_add [OF this, where m = "(drafts d)(draftId \<mapsto> ?nxt)"
      and r = "\<lparr>snap_id = None, snap_draftId = draftId, snap_docJson = docJson ?nxt,
        snap_selection = coalesce (selection ?nxt) Null, createdAt = now\<rparr>"]
  have wf1: "wf_db ?d1" by simp
  have cnt1: "length (where_draftId draftId ?d1) = length (where_draftId draftId d) + 1"
    by (simp add: where_draftId_def)
  show "wf_db (snd (flush f draftId os now st))"
    using wf_after_ring [OF wf1 ring] st by simp
  show "length (where_draftId draftId (snd (flush f draftId os now st)))
           = min (length (where_draftId draftId (snd st)) + 1) (snapshotLimit os)"
    using length_where_after_ring [OF wf1 ring] cnt1 st by simp
qed

section \<open>Runs with calls in flight\<close>

lemma flush_commit_Inl:
  "flush_commit f draftId os now update (Inl e) (h, d) = (h\<lparr>hook_error := Some e, saving := False\<rparr>, d)"
  by (simp add: flush_commit_def)

lemma flush_commit_rolled_back:
  "fst (transaction (flush_body f draftId (snapshotLimit os) now (flush_next draftId now update prev)) d) \<noteq> None
   \<Longrightarrow> snd (flush_commit f draftId os now update (Inr prev) (h, d)) = d"
  by (simp add: flush_commit_def transaction_def Let_def split: sum.splits)

lemma flush_commit_committed:
  assumes "fst (transaction (flush_body f draftId (snapshotLimit os) now (flush_next draftId now update prev)) d) = None"
  shows "drafts (snd (flush_commit f draftId os now update (Inr prev) (h, d)))
           = (drafts d)(draftId \<mapsto> flush_next draftId now update prev)"
proof -
  let ?nxt = "flush_next draftId now update prev"
  obtain d' where b: "flush_body f draftId (snapshotLimit os) now ?nxt d = Inr d'"
    using assms by (cases "flush_body f draftId (snapshotLimit os) now ?nxt d") (simp_all add: transaction_def)
  have "draft_id ?nxt = draftId"
    by (simp add: flush_next_def)
  with flush_body_Inr [OF b] have "drafts d' = (drafts d)(draftId \<mapsto> ?nxt)"
    by simp
  then show ?thesis
    using b by (simp add: flush_commit_def transaction_def Let_def)
qed

lemma current_version_upd:
  "drafts d' = (drafts d)(draftId \<mapsto> r) \<Longrightarrow> current_version draftId d' = version r"
  by (simp add: current_version_def)

lemma flush_next_version:
  "version (flush_next draftId now update (drafts d draftId)) = current_version draftId d + 1"
  by (simp add: flush_next_def current_version_def split: option.splits)

lemma restore_next_fresh:
  "draft_id (restore_next draftId now snap (drafts d draftId)) = draftId
   \<and> version (restore_next draftId now snap (drafts d draftId)) = current_version draftId d + 1"
  by (simp add: restore_next_def current_version_def split: option.splits)

lemma resume_only_task:
  assumes "w_tasks w = [tk]" and "task_fresh draftId (w_db w) tk"
  shows "stepped draftId w (resume_task draftId os 0 t tk w)"
proof (cases tk)
  case (FlushGet f now update)
  then show ?thesis
    using assms
    by (simp add: stepped_def quiet_def observed_def finish_def suspend_def drafts_get_def
        flush_commit_Inl)
next
  case (FlushTx f now update prev)
  let ?c = "fst (transaction (flush_body f draftId (snapshotLimit os) now
                  (flush_next draftId now update prev)) (w_db w)) = None"
  have prev: "prev = drafts (w_db w) draftId"
    using assms FlushTx by simp
  show ?thesis
  proof (cases ?c)
    case True
    have "current_version draftId (snd (flush_commit f draftId os now update (Inr prev) (w_hook w, w_db w)))
            = current_version draftId (w_db w) + 1"
      using current_version_upd [OF flush_commit_committed [OF True]] flush_next_version [of draftId now update "w_db w"]
      by (simp add: prev)
    then show ?thesis
      using True FlushTx assms(1)
      by (simp add: stepped_def quiet_def observed_def finish_def Let_def)
  next
    case False
    have "snd (flush_commit f draftId os now update (Inr prev) (w_hook w, w_db w)) = w_db w"
      using False by (rule flush_commit_rolled_back)
    then show ?thesis
      using False FlushTx assms(1)
      by (simp add: stepped_def quiet_def observed_def finish_def Let_def)
  qed
next
  case (RestoreGetSnap f snapshotId)
  then show ?thesis
    using assms
    by (simp add: stepped_def quiet_def observed_def finish_def suspend_def
        split: sum.splits option.splits)
next
  case (RestoreGetDraft f now snap)
  then show ?thesis
    using assms restore_next_fresh [of draftId now snap "w_db w"]
    by (simp add: stepped_def quiet_def observed_def finish_def suspend_def drafts_get_def)
next
  case (RestorePut f nxt)
  then show ?thesis
    using assms
    by (simp add: stepped_def quiet_def observed_def finish_def drafts_put_def current_version_def)
qed

lemma act_step_serial:
  assumes q: "quiet draftId w" and c: "is_call a \<longrightarrow> w_tasks w = []"
  shows "stepped draftId w (act_step draftId os a w)"
proof (cases a)
  case (Edit now u)
  then show ?thesis
    using q by (simp add: stepped_def quiet_def observed_def split: list.splits)
next
  case (CallFlush f now)
  then show ?thesis
    using q c by (simp add: stepped_def quiet_def observed_def call_flush_def flush_begin_def)
next
  case (CallRestore f snapshotId)
  then show ?thesis
    using q c by (simp add: stepped_def quiet_def observed_def call_restore_def)
next
  case (Resume i t)
  show ?thesis
  proof (cases "i < length (w_tasks w)")
    case False
    then show ?thesis
      using q Resume by (simp add: stepped_def)
  next
    case True
    then obtain tk where tk: "w_tasks w = [tk]" and fr: "task_fresh draftId (w_db w) tk"
      using q by (auto simp: quiet_def split: list.splits)
    have "i = 0" using True tk by simp
    then show ?thesis
      using resume_only_task [OF tk fr, of os t] Resume tk by simp
  qed
qed

lemma run_acts_serial:
  "quiet draftId w \<Longrightarrow> serial draftId os sched w \<Longrightarrow>
     \<exists>n. observed (run_acts draftId os sched w)
            = observed w @ [current_version draftId (w_db w) + 1 ..< current_version draftId (w_db w) + 1 + n]
          \<and> current_version draftId (w_db (run_acts draftId os sched w)) = current_version draftId (w_db w) + n"
proof (induction sched arbitrary: w)
  case Nil
  show ?case by (rule exI [of _ 0]) simp
next
  case (Cons a sched)
  let ?w' = "act_step draftId os a w"
  let ?v = "current_version draftId (w_db w)"
  have c: "is_call a \<longrightarrow> w_tasks w = []" and s: "serial draftId os sched ?w'"
    using Cons.prems(2) by simp_all
  have st: "stepped draftId w ?w'"
    by (rule act_step_serial [OF Cons.prems(1) c])
  then have q': "quiet draftId ?w'"
    by (simp add: stepped_def)
  from Cons.IH [OF q' s] obtain n where
    obs: "observed (run_acts draftId os sched ?w')
            = observed ?w' @ [current_version draftId (w_db ?w') + 1 ..< current_version draftId (w_db ?w') + 1 + n]"
    and cv: "current_version draftId (w_db (run_acts draftId os sched ?w')) = current_version draftId (w_db ?w') + n"
    by blast
  from st consider
      (same) "observed ?w' = observed w" "current_version draftId (w_db ?w') = ?v"
    | (more) "observed ?w' = observed w @ [?v + 1]" "current_version draftId (w_db ?w') = ?v + 1"
    by (auto simp: stepped_def)
  then show ?case
  proof cases
    case same
    show ?thesis
      by (rule exI [of _ n]) (simp add: obs cv same)
  next
    case more
    have "[?v + 1] @ [?v + 2 ..< ?v + 2 + n] = [?v + 1 ..< ?v + 1 + Suc n]"
      by (simp add: upt_conv_Cons)
    then show ?thesis
      by (intro exI [of _ "Suc n"]) (simp add: obs cv more)
  qed
qed

lemmas task_defs = call_flush_def call_restore_def finish_def suspend_def observed_def
  restore_next_def onChange_def spread_def spread_slot_def current_version_def

lemma flush_as_tasks:
  assumes "w_tasks w = []"
  shows "w_hook (run_acts draftId os [CallFlush f now, Resume 0 t1, Resume 0 t2] w)
           = fst (flush f draftId os now (w_hook w, w_db w))
    \<and> w_db (run_acts draftId os [CallFlush f now, Resume 0 t1, Resume 0 t2] w)
           = snd (flush f draftId os now (w_hook w, w_db w))
    \<and> w_tasks (run_acts draftId os [CallFlush f now, Resume 0 t1, Resume 0 t2] w) = []"
  using assms
  by (cases "f DraftsGet")
     (simp_all add: flush_def call_flush_def flush_begin_def truthy_object_def drafts_get_def
       finish_def suspend_def Let_def)

lemma restore_as_tasks:
  assumes "w_tasks w = []"
  shows "w_hook (run_acts draftId os [CallRestore f k, Resume 0 now, Resume 0 t1, Resume 0 t2] w)
           = fst (snd (restoreFromSnapshot f draftId now k (w_hook w, w_db w)))
    \<and> w_db (run_acts draftId os [CallRestore f k, Resume 0 now, Resume 0 t1, Resume 0 t2] w)
           = snd (snd (restoreFromSnapshot f draftId now k (w_hook w, w_db w)))
    \<and> w_tasks (run_acts draftId os [CallRestore f k, Resume 0 now, Resume 0 t1, Resume 0 t2] w) = []"
  using assms
  by (simp add: restoreFromSnapshot_def call_restore_def finish_def suspend_def Let_def
      drafts_get_def drafts_put_def snapshots_get_def split: option.splits)

text \<open>
  Claim C4, as stated: for any sequence of successful flushes and restores on one draft
  identity, the observed versions of the Draft row are 1, 2, 3 and so on, with no repeats or
  gaps. The handlers do not await flush, and flush reads the prior row before it opens its
  transaction. When the page is hidden and \<^verbatim>\<open>pagehide\<close> follows at once, the second
  flush reads the prior row before the first has written: both flushes commit, and both
  write version 1.
\<close>

theorem overlapping_flushes_repeat_version_counterexample:
  "w_log (run_acts ''current'' default_opts ex_overlap ex_world)
     = [Flushed ex_update2 1, Flushed empty_update 1]
   \<and> observed (run_acts ''current'' default_opts ex_overlap ex_world) = [1, 1]
   \<and> observed (run_acts ''current'' default_opts ex_overlap ex_world)
       \<noteq> [1 ..< Suc (length (observed (run_acts ''current'' default_opts ex_overlap ex_world)))]
   \<and> w_tasks (run_acts ''current'' default_opts ex_overlap ex_world) = []"
  by (simp add: ex_overlap_def ex_world_def task_defs flush_defs store_defs ex_defs empty_db_def default_opts_def)

lemma ex_serial_eval:
  "serial ''current'' ex_opts ex_serial ex_world
   \<and> length (observed (run_acts ''current'' ex_opts ex_serial ex_world)) = 3"
  by (simp add: ex_serial_def ex_world_def task_defs flush_defs store_defs ex_defs empty_db_def)

text \<open>
  Claim C4, amended: for any run of edits, flushes and restores on one draft identity in
  which no flush or restore is called while another call is in flight, starting without a
  Draft row of the identity, the versions of the Draft row seen after each flush whose
  transaction committed and each restore whose put went through are 1, 2, 3 and so on, with
  no repeats or gaps: each of them increments the version by exactly 1, and the first write
  has version 1.
\<close>

theorem version_monotonicity:
  assumes "w_tasks w = []" and "w_log w = []" and "drafts (w_db w) draftId = None"
    and "serial draftId os sched w"
  shows "observed (run_acts draftId os sched w)
           = [1 ..< Suc (length (observed (run_acts draftId os sched w)))]
    \<and> current_version draftId (w_db (run_acts draftId os sched w))
           = length (observed (run_acts draftId os sched w))"
proof -
  have q: "quiet draftId w"
    using assms(1) by (simp add: quiet_def)
  have v: "current_version draftId (w_db w) = 0"
    using assms(3) by (simp add: current_version_def)
  have o: "observed w = []"
    using assms(2) by (simp add: observed_def)
  from run_acts_serial [OF q assms(4)] obtain n where
    obs: "observed (run_acts draftId os sched w) = [1 ..< 1 + n]"
    and cv: "current_version draftId (w_db (run_acts draftId os sched w)) = n"
    by (auto simp: v o)
  have len: "length (observed (run_acts draftId os sched w)) = n"
    by (simp add: obs)
  show ?thesis
    by (simp only: len) (simp add: obs cv)
qed

theorem version_monotonicity_witness:
  "w_tasks ex_world = [] \<and> w_log ex_world = [] \<and> drafts (w_db ex_world) ''current'' = None
   \<and> serial ''current'' ex_opts ex_serial ex_world
   \<and> observed (run_acts ''current'' ex_opts ex_serial ex_world) = [1, 2, 3]"
proof -
  have h1: "w_tasks ex_world = []" and h2: "w_log ex_world = []"
    and h3: "drafts (w_db ex_world) ''current'' = None"
    by (simp_all add: ex_world_def empty_db_def)
  have h4: "serial ''current'' ex_opts ex_serial ex_world"
    using ex_serial_eval by (rule conjunct1)
  have len: "length (observed (run_acts ''current'' ex_opts ex_serial ex_world)) = 3"
    using ex_serial_eval by (rule conjunct2)
  have "observed (run_acts ''current'' ex_opts ex_serial ex_world)
          = [1 ..< Suc (length (observed (run_acts ''current'' ex_opts ex_serial ex_world)))]"
    using version_monotonicity [OF h1 h2 h3 h4] by (rule conjunct1)
  also have "\<dots> = [1 ..< Suc 3]"
    by (simp only: len)
  also have "\<dots> = [1, 2, 3]"
    by (simp add: upt_rec)
  finally show ?thesis
    using h1 h2 h3 h4 by (intro conjI)
qed

text \<open>
  Claim C5: for every draft identity and every number \<open>n\<close> of successful flushes with
  non-empty buffers, the number of stored Snapshot rows of the identity afterwards is
  \<open>min n snapshotLimit\<close>.

  With the default limit of 20, after one edit, the flush that persists it and two more
  flushes with nothing buffered, one flush had a non-empty buffer, so the claim gives one
  Snapshot row; the store holds three. A flush with an empty buffer goes past the guard of
  flush and appends a Snapshot like any other (claim C1); \<open>flush_succeeded_store\<close>
  gives the count after any successful flush.
\<close>

theorem idle_flushes_fill_ring:
  "w_log (run_acts ''current'' default_opts ex_idle_flushes ex_world)
     = [Flushed ex_update2 1, Flushed empty_update 2, Flushed empty_update 3]
   \<and> keys_length empty_update = 0
   \<and> nonempty_flushes (run_acts ''current'' default_opts ex_idle_flushes ex_world) = 1
   \<and> length (where_draftId ''current'' (w_db (run_acts ''current'' default_opts ex_idle_flushes ex_world))) = 3
   \<and> min (nonempty_flushes (run_acts ''current'' default_opts ex_idle_flushes ex_world))
          (snapshotLimit default_opts) = 1
   \<and> serial ''current'' default_opts ex_idle_flushes ex_world"
  by (simp add: ex_idle_flushes_def ex_world_def nonempty_flushes_def keys_length_def task_defs
      flush_defs store_defs ex_defs empty_db_def default_opts_def)

section \<open>Debounce\<close>

lemma foldl_spread_slot: "foldl spread_slot a xs = merged_attr a xs"
proof (induction xs arbitrary: a)
  case Nil
  then show ?case by (simp add: merged_attr_def)
next
  case (Cons x xs)
  show ?case
  proof (cases "x = Missing")
    case True
    then show ?thesis
      using Cons.IH [of a] by (simp add: spread_slot_def merged_attr_def)
  next
    case False
    then show ?thesis
      using Cons.IH [of x] by (simp add: spread_slot_def merged_attr_def split: list.splits)
  qed
qed

lemma foldl_spread_attrs:
  "upd_projectName (foldl spread b us) = foldl spread_slot (upd_projectName b) (map upd_projectName us)"
  "upd_promptName (foldl spread b us) = foldl spread_slot (upd_promptName b) (map upd_promptName us)"
  "upd_docJson (foldl spread b us) = foldl spread_slot (upd_docJson b) (map upd_docJson us)"
  "upd_selection (foldl spread b us) = foldl spread_slot (upd_selection b) (map upd_selection us)"
  by (induction us arbitrary: b) (simp_all add: spread_def)

lemma advance_not_due:
  "timerRef h = None \<or> (\<exists>due. timerRef h = Some due \<and> t < due) \<Longrightarrow>
     advance f draftId os t ((h, d), log) = ((h, d), log)"
  by (auto simp: advance_def)

lemma run_changes_coalesce:
  assumes "es \<noteq> []" and "spaced_within (delayMs os) (map fst es)"
    and "timerRef h = None \<or> (\<exists>due. timerRef h = Some due \<and> fst (hd es) < due)"
  shows "run_changes f draftId os es ((h, d), log)
           = ((h\<lparr>bufferRef := foldl spread (bufferRef h) (map snd es),
                 timerRef := Some (fst (last es) + delayMs os)\<rparr>, d), log)"
  using assms
proof (induction es arbitrary: h)
  case Nil
  then show ?case by simp
next
  case (Cons e es)
  have adv: "advance f draftId os (fst e) ((h, d), log) = ((h, d), log)"
    using Cons.prems(3) by (intro advance_not_due) simp
  let ?h1 = "onChange os (fst e) (snd e) h"
  have step: "run_changes f draftId os (e # es) ((h, d), log) = run_changes f draftId os es ((?h1, d), log)"
    by (simp add: adv)
  show ?case
  proof (cases es)
    case Nil
    then show ?thesis
      by (simp add: adv onChange_def)
  next
    case (Cons e' es')
    have sp: "spaced_within (delayMs os) (map fst es)" and lt: "fst e' < fst e + delayMs os"
      using Cons.prems(2) Cons by simp_all
    have tm: "timerRef ?h1 = None \<or> (\<exists>due. timerRef ?h1 = Some due \<and> fst (hd es) < due)"
      using lt Cons by (simp add: onChange_def)
    have ne: "es \<noteq> []" using Cons by simp
    from Cons.IH [OF ne sp tm] step ne show ?thesis
      by (simp add: onChange_def)
  qed
qed

lemma enforce_ring_no_faults: "\<exists>d'. enforce_ring no_faults draftId limit d = Inr d'"
  by (simp add: enforce_ring_def snapshots_count_def snapshots_sortBy_createdAt_def
      snapshots_bulkDelete_def no_faults_def Let_def)

lemma flush_body_no_faults: "\<exists>d'. flush_body no_faults draftId limit now nxt d = Inr d'"
  using enforce_ring_no_faults
  by (simp add: flush_body_def drafts_put_def snapshots_add_def no_faults_def)

lemma flush_no_faults_ok: "hook_error (fst (flush no_faults draftId os now (h, d))) = None"
proof -
  obtain d' where "flush_body no_faults draftId (snapshotLimit os) now
      (flush_next draftId now (bufferRef h) (drafts d draftId)) d = Inr d'"
    using flush_body_no_faults by blast
  then show ?thesis
    by (simp add: flush_def flush_begin_def flush_commit_def drafts_get_def transaction_def
        truthy_object_def Let_def no_faults_def)
qed

lemma flush_next_values:
  "(\<forall>v. upd_projectName u = Val v \<longrightarrow> projectName (flush_next draftId now u prev) = Val v)
   \<and> (\<forall>v. upd_promptName u = Val v \<longrightarrow> promptName (flush_next draftId now u prev) = Val v)
   \<and> (\<forall>v. upd_docJson u = Val v \<longrightarrow> docJson (flush_next draftId now u prev) = Val v)
   \<and> (\<forall>v. upd_selection u = Val v \<longrightarrow> selection (flush_next draftId now u prev) = Val v)
   \<and> (nullish (upd_projectName u) \<longrightarrow> projectName (flush_next draftId now u prev) = opt_chain projectName prev)
   \<and> (nullish (upd_promptName u) \<longrightarrow> promptName (flush_next draftId now u prev) = opt_chain promptName prev)
   \<and> (nullish (upd_docJson u) \<longrightarrow> docJson (flush_next draftId now u prev) = opt_chain docJson prev)
   \<and> (nullish (upd_selection u) \<longrightarrow>
        selection (flush_next draftId now u prev) =
          (if nullish (opt_chain selection prev) then Null else opt_chain selection prev))
   \<and> updatedAt (flush_next draftId now u prev) = now
   \<and> version (flush_next draftId now u prev) = (case prev of None \<Rightarrow> 1 | Some p \<Rightarrow> version p + 1)
   \<and> draft_id (flush_next draftId now u prev) = draftId"
  by (cases "upd_projectName u"; cases "upd_promptName u"; cases "upd_docJson u"; cases "upd_selection u")
     (simp_all add: flush_next_def coalesce_def split: option.splits)

text \<open>
  Claim C7, as stated: after N onChange calls, each within \<^verbatim>\<open>delayMs\<close> of the one
  before, exactly one flush occurs and its persisted content equals the left-to-right merge
  of the N updates. With three such edits whose merge has the selection \<^verbatim>\<open>null\<close>,
  over a Draft row that has a selection, the one flush persists the selection of the prior
  row, not the one of the merge.
\<close>

theorem debounce_null_not_persisted_counterexample:
  "ex_changes \<noteq> [] \<and> spaced_within (delayMs ex_opts) (map fst ex_changes)
   \<and> timerRef initial_hook = None \<and> bufferRef initial_hook = empty_update
   \<and> fst (last ex_changes) + delayMs ex_opts \<le> 2500
   \<and> upd_selection (foldl spread empty_update (map snd ex_changes)) = Null
   \<and> map_option selection (draft_after_quiet ''current'' ex_opts ex_changes 2500 (initial_hook, ex_db))
       = Some (Val ex_sel)
   \<and> map_option selection (draft_after_quiet ''current'' ex_opts ex_changes 2500 (initial_hook, ex_db))
       \<noteq> Some (upd_selection (foldl spread empty_update (map snd ex_changes)))"
  by (simp add: draft_after_quiet_def ex_changes_def advance_def timer_fired_def onChange_def
      spread_def spread_slot_def flush_defs store_defs ex_defs)

text \<open>
  Claim C7, amended: for every sequence of one or more onChange calls, each arriving less
  than \<^verbatim>\<open>delayMs\<close> after the one before, on a hook with an empty buffer and no pending
  timeout, exactly one flush occurs, \<^verbatim>\<open>delayMs\<close> after the last call and not before.
  The content it takes from the buffer is the left-to-right shallow merge of all the updates:
  per attribute the last update that has the key, keys absent from an update left
  untouched. When no storage call fails, the Draft row it persists holds, for each attribute,
  the merged value if that is neither undefined nor null, and else the value of the prior
  row (for the selection, null when that is undefined or null too); its \<^verbatim>\<open>updatedAt\<close>
  is the time of the flush and its version the prior version plus 1.
\<close>

theorem debounce_coalescing:
  assumes "es \<noteq> []" and "spaced_within (delayMs os) (map fst es)"
    and "timerRef h = None" and "bufferRef h = empty_update"
    and "fst (last es) + delayMs os \<le> T"
  shows "advance f draftId os T (run_changes f draftId os es ((h, d), []))
           = (flush f draftId os (fst (last es) + delayMs os)
                (h\<lparr>bufferRef := foldl spread empty_update (map snd es), timerRef := None\<rparr>, d),
              [(fst (last es) + delayMs os, foldl spread empty_update (map snd es))])
    \<and> (\<forall>T' < fst (last es) + delayMs os.
          snd (advance f draftId os T' (run_changes f draftId os es ((h, d), []))) = [])
    \<and> upd_projectName (foldl spread empty_update (map snd es)) = merged_attr Missing (map (upd_projectName \<circ> snd) es)
    \<and> upd_promptName (foldl spread empty_update (map snd es)) = merged_attr Missing (map (upd_promptName \<circ> snd) es)
    \<and> upd_docJson (foldl spread empty_update (map snd es)) = merged_attr Missing (map (upd_docJson \<circ> snd) es)
    \<and> upd_selection (foldl spread empty_update (map snd es)) = merged_attr Missing (map (upd_selection \<circ> snd) es)
    \<and> (\<exists>r. draft_after_quiet draftId os es T (h, d) = Some r
          \<and> draft_id r = draftId
          \<and> updatedAt r = fst (last es) + delayMs os
          \<and> version r = current_version draftId d + 1
          \<and> (\<forall>v. merged_attr Missing (map (upd_projectName \<circ> snd) es) = Val v \<longrightarrow> projectName r = Val v)
          \<and> (\<forall>v. merged_attr Missing (map (upd_promptName \<circ> snd) es) = Val v \<longrightarrow> promptName r = Val v)
          \<and> (\<forall>v. merged_attr Missing (map (upd_docJson \<circ> snd) es) = Val v \<longrightarrow> docJson r = Val v)
          \<and> (\<forall>v. merged_attr Missing (map (upd_selection \<circ> snd) es) = Val v \<longrightarrow> selection r = Val v)
          \<and> (nullish (merged_attr Missing (map (upd_projectName \<circ> snd) es)) \<longrightarrow>
                projectName r = opt_chain projectName (drafts d draftId))
          \<and> (nullish (merged_attr Missing (map (upd_promptName \<circ> snd) es)) \<longrightarrow>
                promptName r = opt_chain promptName (drafts d draftId))
          \<and> (nullish (merged_attr Missing (map (upd_docJson \<circ> snd) es)) \<longrightarrow>
                docJson r = opt_chain docJson (drafts d draftId))
          \<and> (nullish (merged_attr Missing (map (upd_selection \<circ> snd) es)) \<longrightarrow>
                selection r = (if nullish (opt_chain selection (drafts d draftId)) then Null
                               else opt_chain selection (drafts d draftId))))"
proof -
  let ?due = "fst (last es) + delayMs os"
  let ?m = "foldl spread empty_update (map snd es)"
  let ?h = "h\<lparr>bufferRef := ?m, timerRef := Some ?due\<rparr>"
  let ?r = "flush_next draftId ?due ?m (drafts d draftId)"
  have tm: "timerRef h = None \<or> (\<exists>due. timerRef h = Some due \<and> fst (hd es) < due)"
    using assms(3) by simp
  have run: "\<And>g. run_changes g draftId os es ((h, d), []) = ((?h, d), [])"
    using run_changes_coalesce [OF assms(1,2) tm, of _ draftId d "[]"] assms(4) by simp
  have one: "advance f draftId os T (run_changes f draftId os es ((h, d), []))
           = (flush f draftId os ?due (h\<lparr>bufferRef := ?m, timerRef := None\<rparr>, d), [(?due, ?m)])"
    using assms(5) by (simp add: run advance_def timer_fired_def)
  have none: "\<forall>T' < ?due. snd (advance f draftId os T' (run_changes f draftId os es ((h, d), []))) = []"
    by (simp add: run advance_def)
  have ok: "hook_error (fst (flush no_faults draftId os ?due (h\<lparr>bufferRef := ?m, timerRef := None\<rparr>, d))) = None"
    by (rule flush_no_faults_ok)
  have row: "drafts (snd (flush no_faults draftId os ?due (h\<lparr>bufferRef := ?m, timerRef := None\<rparr>, d))) draftId
               = Some ?r"
    using flush_ok [OF ok, THEN conjunct1] by simp
  have persisted: "draft_after_quiet draftId os es T (h, d) = Some ?r"
    using assms(5) row by (simp add: draft_after_quiet_def run advance_def timer_fired_def)
  have a1: "upd_projectName ?m = merged_attr Missing (map (upd_projectName \<circ> snd) es)"
    by (simp add: foldl_spread_attrs foldl_spread_slot empty_update_def)
  have a2: "upd_promptName ?m = merged_attr Missing (map (upd_promptName \<circ> snd) es)"
    by (simp add: foldl_spread_attrs foldl_spread_slot empty_update_def)
  have a3: "upd_docJson ?m = merged_attr Missing (map (upd_docJson \<circ> snd) es)"
    by (simp add: foldl_spread_attrs foldl_spread_slot empty_update_def)
  have a4: "upd_selection ?m = merged_attr Missing (map (upd_selection \<circ> snd) es)"
    by (simp add: foldl_spread_attrs foldl_spread_slot empty_update_def)
  have ver: "version ?r = current_version draftId d + 1"
    by (simp add: flush_next_def current_version_def split: option.splits)
  note vals = flush_next_values [of ?m draftId ?due "drafts d draftId", unfolded a1 a2 a3 a4]
  have content: "\<exists>r. draft_after_quiet draftId os es T (h, d) = Some r
          \<and> draft_id r = draftId
          \<and> updatedAt r = fst (last es) + delayMs os
          \<and> version r = current_version draftId d + 1
          \<and> (\<forall>v. merged_attr Missing (map (upd_projectName \<circ> snd) es) = Val v \<longrightarrow> projectName r = Val v)
          \<and> (\<forall>v. merged_attr Missing (map (upd_promptName \<circ> snd) es) = Val v \<longrightarrow> promptName r = Val v)
          \<and> (\<forall>v. merged_attr Missing (map (upd_docJson \<circ> snd) es) = Val v \<longrightarrow> docJson r = Val v)
          \<and> (\<forall>v. merged_attr Missing (map (upd_selection \<circ> snd) es) = Val v \<longrightarrow> selection r = Val v)
          \<and> (nullish (merged_attr Missing (map (upd_projectName \<circ> snd) es)) \<longrightarrow>
                projectName r = opt_chain projectName (drafts d draftId))
          \<and> (nullish (merged_attr Missing (map (upd_promptName \<circ> snd) es)) \<longrightarrow>
                promptName r = opt_chain promptName (drafts d draftId))
          \<and> (nullish (merged_attr Missing (map (upd_docJson \<circ> snd) es)) \<longrightarrow>
                docJson r = opt_chain docJson (drafts d draftId))
          \<and> (nullish (merged_attr Missing (map (upd_selection \<circ> snd) es)) \<longrightarrow>
                selection r = (if nullish (opt_chain selection (drafts d draftId)) then Null
                               else opt_chain selection (drafts d draftId)))"
    apply (rule exI [of _ ?r])
    apply (insert persisted ver vals)
    apply (elim conjE)
    apply (intro conjI; assumption)
    done
  from one none a1 a2 a3 a4 content show ?thesis
    by (intro conjI)
qed

theorem debounce_coalescing_witness:
  "ex_changes \<noteq> [] \<and> spaced_within (delayMs ex_opts) (map fst ex_changes)
   \<and> timerRef initial_hook = None \<and> bufferRef initial_hook = empty_update
   \<and> fst (last ex_changes) + delayMs ex_opts \<le> 2500
   \<and> snd (advance no_faults ''current'' ex_opts 2500
            (run_changes no_faults ''current'' ex_opts ex_changes ((initial_hook, ex_db), [])))
       = [(1900, \<lparr>upd_projectName = Val ''q'', upd_promptName = Missing,
                  upd_docJson = Val (JStr ''b''), upd_selection = Null\<rparr>)]
   \<and> (\<exists>r. draft_after_quiet ''current'' ex_opts ex_changes 2500 (initial_hook, ex_db) = Some r
         \<and> projectName r = Val ''q'' \<and> docJson r = Val (JStr ''b'') \<and> selection r = Val ex_sel
         \<and> version r = 2)"
proof -
  have h1: "ex_changes \<noteq> []"
    by (simp add: ex_changes_def)
  have h2: "spaced_within (delayMs ex_opts) (map fst ex_changes)"
    by (simp add: ex_changes_def ex_opts_def)
  have h3: "timerRef initial_hook = None"
    by (simp add: initial_hook_def)
  have h4: "bufferRef initial_hook = empty_update"
    by (simp add: initial_hook_def)
  have h5: "fst (last ex_changes) + delayMs ex_opts \<le> 2500"
    by (simp add: ex_changes_def ex_opts_def)
  have m: "(fst (last ex_changes) + delayMs ex_opts, foldl spread empty_update (map snd ex_changes))
            = (1900, \<lparr>upd_projectName = Val ''q'', upd_promptName = Missing,
                  upd_docJson = Val (JStr ''b''), upd_selection = Null\<rparr>)"
    by (simp add: ex_changes_def ex_opts_def ex_update_def ex_update2_def empty_update_def
        spread_def spread_slot_def)
  have m1: "merged_attr Missing (map (upd_projectName \<circ> snd) ex_changes) = Val ''q''"
    and m3: "merged_attr Missing (map (upd_docJson \<circ> snd) ex_changes) = Val (JStr ''b'')"
    and m4: "nullish (merged_attr Missing (map (upd_selection \<circ> snd) ex_changes))"
    by (simp_all add: merged_attr_def ex_changes_def ex_update_def ex_update2_def)
  have p: "opt_chain selection (drafts ex_db ''current'') = Val ex_sel"
    and v: "current_version ''current'' ex_db = 1"
    by (simp_all add: opt_chain_def current_version_def ex_db_def ex_draft_def)
  note t = debounce_coalescing [OF h1 h2 h3 h4 h5, of no_faults "''current''" ex_db]
  have "snd (advance no_faults ''current'' ex_opts 2500
            (run_changes no_faults ''current'' ex_opts ex_changes ((initial_hook, ex_db), [])))
          = [(fst (last ex_changes) + delayMs ex_opts, foldl spread empty_update (map snd ex_changes))]"
    using t [THEN conjunct1] by simp
  then have log: "snd (advance no_faults ''current'' ex_opts 2500
            (run_changes no_faults ''current'' ex_opts ex_changes ((initial_hook, ex_db), [])))
       = [(1900, \<lparr>upd_projectName = Val ''q'', upd_promptName = Missing,
                  upd_docJson = Val (JStr ''b''), upd_selection = Null\<rparr>)]"
    by (simp only: m)
  from t obtain r where r: "draft_after_quiet ''current'' ex_opts ex_changes 2500 (initial_hook, ex_db) = Some r"
    and r1: "\<forall>v. merged_attr Missing (map (upd_projectName \<circ> snd) ex_changes) = Val v \<longrightarrow> projectName r = Val v"
    and r3: "\<forall>v. merged_attr Missing (map (upd_docJson \<circ> snd) ex_changes) = Val v \<longrightarrow> docJson r = Val v"
    and r4: "nullish (merged_attr Missing (map (upd_selection \<circ> snd) ex_changes)) \<longrightarrow>
                selection r = (if nullish (opt_chain selection (drafts ex_db ''current'')) then Null
                               else opt_chain selection (drafts ex_db ''current''))"
    and rv: "version r = current_version ''current'' ex_db + 1"
    by blast
  have "projectName r = Val ''q''" using r1 m1 by blast
  moreover have "docJson r = Val (JStr ''b'')" using r3 m3 by blast
  moreover have "selection r = Val ex_sel" using r4 m4 p by simp
  moreover have "version r = 2" using rv v by simp
  ultimately have "\<exists>r. draft_after_quiet ''current'' ex_opts ex_changes 2500 (initial_hook, ex_db) = Some r
         \<and> projectName r = Val ''q'' \<and> docJson r = Val (JStr ''b'') \<and> selection r = Val ex_sel
         \<and> version r = 2"
    using r by blast
  with h1 h2 h3 h4 h5 log show ?thesis
    by (intro conjI)
qed

end
